theory Spec2Isabelle
  imports Complex_Main "HOL-Library.List_Lexorder" "HOL-Library.Char_ord"
    "HOL-Library.Product_Lexorder"
begin

section \<open>Python values used by the scripts\<close>

text \<open>
  The exceptions the modelled code can raise.  \<^verbatim>\<open>SystemExit\<close> carries the values that the
  source interpolates into its message: for a search, the status code, the query, the page
  and the error payload (\<open>SystemExit_search\<close>); for the fetch of one pull request, the status
  code, the number of the pull request and the error payload (\<open>SystemExit_pull\<close>).
  \<^verbatim>\<open>requests.HTTPError\<close>, raised by \<^verbatim>\<open>raise_for_status\<close>, carries the status code, the URL of
  the request, which is its address with the query parameters, and the response with its
  text (\<open>HTTPError\<close>: the status code, the path, the query text, the page and the text of
  the response).  \<^verbatim>\<open>JSONDecodeError\<close> is raised by \<^verbatim>\<open>r.json()\<close> on a body that is not JSON.
\<close>

datatype py_error =
    OverflowError
  | ValueError
  | SystemExit_search int string int string
  | SystemExit_pull int int string
  | HTTPError int string string int string
  | JSONDecodeError

subsection \<open>Calendar dates\<close>

text \<open>
  A \<^verbatim>\<open>datetime.date\<close> is represented by its proleptic Gregorian ordinal
  (\<^verbatim>\<open>date.toordinal()\<close>): 0001-01-01 is day 1 and 9999-12-31 is day 3652059.  Python
  dates do not exist outside this range; arithmetic that would leave it raises
  \<^verbatim>\<open>OverflowError\<close>.  Comparison of dates is comparison of ordinals.
\<close>

type_synonym date = int

definition MINORD :: int where
  "MINORD = 1"

definition MAXORD :: int where
  "MAXORD = 3652059"

definition valid_date :: "date \<Rightarrow> bool" where
  "valid_date d \<longleftrightarrow> MINORD \<le> d \<and> d \<le> MAXORD"

text \<open>\<^verbatim>\<open>timedelta(days=k)\<close>: the magnitude of \<open>k\<close> is limited to 999999999 days.\<close>

definition timedelta :: "int \<Rightarrow> py_error + int" where
  "timedelta k = (if \<bar>k\<bar> \<le> 999999999 then Inr k else Inl OverflowError)"

text \<open>\<^verbatim>\<open>d + td\<close> for a date and a timedelta of whole days.\<close>

definition date_add :: "date \<Rightarrow> int \<Rightarrow> py_error + date" where
  "date_add d k = (if MINORD \<le> d + k \<and> d + k \<le> MAXORD then Inr (d + k) else Inl OverflowError)"

subsection \<open>The proleptic Gregorian calendar\<close>

text \<open>
  The attributes \<^verbatim>\<open>d.year\<close>, \<^verbatim>\<open>d.month\<close>, \<^verbatim>\<open>d.day\<close> and the constructor
  \<^verbatim>\<open>date(y, m, d)\<close> are the conversions between an ordinal and the calendar triple, as in
  CPython's \<^verbatim>\<open>datetime\<close>: \<open>ymd2ord\<close> counts the days before the year, the days before the
  month and the day; \<open>ord2ymd\<close> splits the ordinal into 400-, 100-, 4- and 1-year cycles.
\<close>

definition is_leap :: "int \<Rightarrow> bool" where
  "is_leap y \<longleftrightarrow> y mod 4 = 0 \<and> (y mod 100 \<noteq> 0 \<or> y mod 400 = 0)"

definition days_before_year :: "int \<Rightarrow> int" where
  "days_before_year y = (y - 1) * 365 + (y - 1) div 4 - (y - 1) div 100 + (y - 1) div 400"

definition days_in_month :: "int \<Rightarrow> int \<Rightarrow> int" where
  "days_in_month y m =
     (if m = 2 then (if is_leap y then 29 else 28)
      else if m = 4 \<or> m = 6 \<or> m = 9 \<or> m = 11 then 30 else 31)"

definition leap_day :: "int \<Rightarrow> int" where
  "leap_day y = (if is_leap y then 1 else 0)"

definition days_before_month :: "int \<Rightarrow> int \<Rightarrow> int" where
  "days_before_month y m =
     (if m \<le> 1 then 0
      else if m = 2 then 31
      else if m = 3 then 59 + leap_day y
      else if m = 4 then 90 + leap_day y
      else if m = 5 then 120 + leap_day y
      else if m = 6 then 151 + leap_day y
      else if m = 7 then 181 + leap_day y
      else if m = 8 then 212 + leap_day y
      else if m = 9 then 243 + leap_day y
      else if m = 10 then 273 + leap_day y
      else if m = 11 then 304 + leap_day y
      else 334 + leap_day y)"

definition valid_ymd :: "int \<Rightarrow> int \<Rightarrow> int \<Rightarrow> bool" where
  "valid_ymd y m d \<longleftrightarrow> 1 \<le> y \<and> y \<le> 9999 \<and> 1 \<le> m \<and> m \<le> 12 \<and> 1 \<le> d \<and> d \<le> days_in_month y m"

definition ymd2ord :: "int \<Rightarrow> int \<Rightarrow> int \<Rightarrow> int" where
  "ymd2ord y m d = days_before_year y + days_before_month y m + d"

text \<open>\<^verbatim>\<open>date(y, m, d)\<close> raises \<^verbatim>\<open>ValueError\<close> for a triple that is not a calendar day.\<close>

definition date_ymd :: "int \<Rightarrow> int \<Rightarrow> int \<Rightarrow> py_error + date" where
  "date_ymd y m d = (if valid_ymd y m d then Inr (ymd2ord y m d) else Inl ValueError)"

text \<open>The month that holds the day with index \<open>n\<close> (from 0) of year \<open>y\<close>.\<close>

definition month_of_yday :: "int \<Rightarrow> int \<Rightarrow> int" where
  "month_of_yday y n =
     (if n < days_before_month y 2 then 1
      else if n < days_before_month y 3 then 2
      else if n < days_before_month y 4 then 3
      else if n < days_before_month y 5 then 4
      else if n < days_before_month y 6 then 5
      else if n < days_before_month y 7 then 6
      else if n < days_before_month y 8 then 7
      else if n < days_before_month y 9 then 8
      else if n < days_before_month y 10 then 9
      else if n < days_before_month y 11 then 10
      else if n < days_before_month y 12 then 11
      else 12)"

definition ord2ymd :: "date \<Rightarrow> int \<times> int \<times> int" where
  "ord2ymd d =
     (let n = d - 1;
          n400 = n div 146097; r400 = n mod 146097;
          n100 = r400 div 36524; r100 = r400 mod 36524;
          n4 = r100 div 1461; r4 = r100 mod 1461;
          n1 = r4 div 365; r1 = r4 mod 365;
          y = n400 * 400 + n100 * 100 + n4 * 4 + n1 + 1
      in if n1 = 4 \<or> n100 = 4 then (y - 1, 12, 31)
         else (let m = month_of_yday y r1 in (y, m, r1 - days_before_month y m + 1)))"

definition year :: "date \<Rightarrow> int" where
  "year d = fst (ord2ymd d)"

definition month :: "date \<Rightarrow> int" where
  "month d = fst (snd (ord2ymd d))"

definition day :: "date \<Rightarrow> int" where
  "day d = snd (snd (ord2ymd d))"

text \<open>\<^verbatim>\<open>d.weekday()\<close>: Monday is 0; day 1 (0001-01-01) is a Monday.\<close>

definition weekday :: "date \<Rightarrow> int" where
  "weekday d = (d + 6) mod 7"

subsection \<open>Timestamps\<close>

text \<open>
  Every \<^verbatim>\<open>datetime\<close> the scripts handle is made by
  \<^verbatim>\<open>datetime.strptime(ts, "%Y-%m-%dT%H:%M:%SZ").replace(tzinfo=timezone.utc)\<close> or by
  \<^verbatim>\<open>datetime(y, m, d, tzinfo=timezone.utc)\<close>, so it is a UTC time: a date and a time of day.
  On such a value \<^verbatim>\<open>astimezone(timezone.utc)\<close> changes nothing.
\<close>

record datetime =
  dt_date :: date
  dt_hour :: int
  dt_minute :: int
  dt_second :: int

definition valid_datetime :: "datetime \<Rightarrow> bool" where
  "valid_datetime t \<longleftrightarrow>
     valid_date (dt_date t) \<and> 0 \<le> dt_hour t \<and> dt_hour t < 24
     \<and> 0 \<le> dt_minute t \<and> dt_minute t < 60 \<and> 0 \<le> dt_second t \<and> dt_second t < 60"

text \<open>\<^verbatim>\<open>datetime(y, m, d, H, M, S, tzinfo=timezone.utc)\<close>.\<close>

definition mk_datetime :: "int \<Rightarrow> int \<Rightarrow> int \<Rightarrow> int \<Rightarrow> int \<Rightarrow> int \<Rightarrow> py_error + datetime" where
  "mk_datetime y m d H M S =
     (if valid_ymd y m d \<and> 0 \<le> H \<and> H < 24 \<and> 0 \<le> M \<and> M < 60 \<and> 0 \<le> S \<and> S < 60
      then Inr \<lparr>dt_date = ymd2ord y m d, dt_hour = H, dt_minute = M, dt_second = S\<rparr>
      else Inl ValueError)"

text \<open>Midnight (UTC) at the start of a day.\<close>

definition midnight :: "date \<Rightarrow> datetime" where
  "midnight d = \<lparr>dt_date = d, dt_hour = 0, dt_minute = 0, dt_second = 0\<rparr>"

text \<open>\<^verbatim>\<open>dt - timedelta(days=k)\<close>: the date moves, the time of day stays.\<close>

definition datetime_sub_days :: "datetime \<Rightarrow> int \<Rightarrow> py_error + datetime" where
  "datetime_sub_days t k =
     (case date_add (dt_date t) (- k) of
        Inl err \<Rightarrow> Inl err
      | Inr d \<Rightarrow> Inr (t\<lparr>dt_date := d\<rparr>))"

text \<open>
  \<^verbatim>\<open>strptime\<close> with the format \<^verbatim>\<open>"%Y-%m-%dT%H:%M:%SZ"\<close> first matches the text against
  the format and reads six numbers from it, and then builds the \<^verbatim>\<open>datetime\<close>, which checks
  the numbers.  Either step raises \<^verbatim>\<open>ValueError\<close>.  The matcher belongs to the Python
  library and is a parameter of the model: \<open>scan ts\<close> is \<open>None\<close> when \<open>ts\<close> does not match
  the format, and the six numbers read otherwise.
\<close>

type_synonym scanner = "string \<Rightarrow> (int \<times> int \<times> int \<times> int \<times> int \<times> int) option"

definition parse_iso_z :: "scanner \<Rightarrow> string \<Rightarrow> py_error + datetime" where
  "parse_iso_z scan ts =
     (case scan ts of
        None \<Rightarrow> Inl ValueError
      | Some (y, m, d, H, M, S) \<Rightarrow> mk_datetime y m d H M S)"

text \<open>
  For the worked examples: the matcher on texts of the full fixed width
  \<^verbatim>\<open>YYYY-MM-DDTHH:MM:SSZ\<close>, which is how the remote API writes its timestamps.  (Python's
  matcher accepts some shorter spellings as well; the examples do not use them.)
\<close>

definition is_digit :: "char \<Rightarrow> bool" where
  "is_digit c \<longleftrightarrow> c \<in> set ''0123456789''"

definition digit_val :: "char \<Rightarrow> int" where
  "digit_val c = int (of_char c) - 48"

definition num :: "string \<Rightarrow> int" where
  "num s = foldl (\<lambda>n c. 10 * n + digit_val c) 0 s"

definition scan_fixed :: scanner where
  "scan_fixed s =
     (if length s = 20 \<and> list_all is_digit (take 4 s) \<and> s ! 4 = CHR ''-''
         \<and> list_all is_digit (take 2 (drop 5 s)) \<and> s ! 7 = CHR ''-''
         \<and> list_all is_digit (take 2 (drop 8 s)) \<and> s ! 10 = CHR ''T''
         \<and> list_all is_digit (take 2 (drop 11 s)) \<and> s ! 13 = CHR '':''
         \<and> list_all is_digit (take 2 (drop 14 s)) \<and> s ! 16 = CHR '':''
         \<and> list_all is_digit (take 2 (drop 17 s)) \<and> s ! 19 = CHR ''Z''
      then Some (num (take 4 s), num (take 2 (drop 5 s)), num (take 2 (drop 8 s)),
                 num (take 2 (drop 11 s)), num (take 2 (drop 14 s)), num (take 2 (drop 17 s)))
      else None)"

subsection \<open>Rendering\<close>

text \<open>
  \<^verbatim>\<open>strftime\<close> writes \<^verbatim>\<open>%m\<close>, \<^verbatim>\<open>%d\<close>, \<^verbatim>\<open>%H\<close>, \<^verbatim>\<open>%M\<close> and \<^verbatim>\<open>%S\<close> as two decimal
  digits, padded with a zero.
\<close>

definition digit_char :: "int \<Rightarrow> char" where
  "digit_char k = ''0123456789'' ! nat k"

definition pad2 :: "int \<Rightarrow> string" where
  "pad2 n = [digit_char (n div 10 mod 10), digit_char (n mod 10)]"

definition pad4 :: "int \<Rightarrow> string" where
  "pad4 n = [digit_char (n div 1000 mod 10), digit_char (n div 100 mod 10),
             digit_char (n div 10 mod 10), digit_char (n mod 10)]"

text \<open>
  \<^verbatim>\<open>%Y\<close> is left to the \<^verbatim>\<open>strftime\<close> of the C library by CPython 3.11, and the C library
  of Linux (glibc) writes the year as a decimal number without padding: the year 2024 as
  \<^verbatim>\<open>2024\<close>, the year 999 as \<^verbatim>\<open>999\<close> and the year 5 as \<^verbatim>\<open>5\<close>.  The years of a date
  are 1 to 9999.
\<close>

definition strftime_Y :: "int \<Rightarrow> string" where
  "strftime_Y y =
     (if y < 10 then [digit_char y]
      else if y < 100 then pad2 y
      else if y < 1000 then digit_char (y div 100) # pad2 (y mod 100)
      else pad4 y)"

text \<open>The date part \<^verbatim>\<open>%Y-%m-%d\<close> of a \<^verbatim>\<open>strftime\<close> format.\<close>

definition strftime_ymd :: "date \<Rightarrow> string" where
  "strftime_ymd d = strftime_Y (year d) @ ''-'' @ pad2 (month d) @ ''-'' @ pad2 (day d)"

text \<open>
  \<^verbatim>\<open>d.isoformat()\<close>, which is also \<^verbatim>\<open>str(d)\<close>, of a date.  It is Python's own code and
  writes the year with four digits always.
\<close>

definition isoformat :: "date \<Rightarrow> string" where
  "isoformat d = pad4 (year d) @ ''-'' @ pad2 (month d) @ ''-'' @ pad2 (day d)"

text \<open>\<^verbatim>\<open>dt.strftime("%Y-%m-%dT%H:%M:%SZ")\<close>.\<close>

definition strftime_iso_z :: "datetime \<Rightarrow> string" where
  "strftime_iso_z t =
     strftime_ymd (dt_date t) @ ''T'' @ pad2 (dt_hour t) @ '':'' @ pad2 (dt_minute t)
       @ '':'' @ pad2 (dt_second t) @ ''Z''"

text \<open>\<^verbatim>\<open>dt.strftime("%Y-%m-%dT00:00:00Z")\<close>.\<close>

definition strftime_midnight :: "datetime \<Rightarrow> string" where
  "strftime_midnight t = strftime_ymd (dt_date t) @ ''T00:00:00Z''"


section \<open>WindowPlanner: \<^verbatim>\<open>daterange_chunks\<close>\<close>

text \<open>
  \<^verbatim>\<open>
  def daterange_chunks(start, end, chunk_days):          # github_weekly_trends.py
      s = start
      one_day = timedelta(days=1)
      while s <= end:
          e = min(s + timedelta(days=chunk_days - 1), end)
          yield (s.isoformat(), e.isoformat())
          s = e + one_day
  \<close>
  The function is a generator.  One resumption of the generator either yields a chunk, or
  ends the iteration, or raises.  \<open>chunks_test\<close> is the generator from the loop test to the
  next \<^verbatim>\<open>yield\<close>; \<open>chunks_resume\<close> is the resumption after a \<^verbatim>\<open>yield\<close>, which first
  executes \<^verbatim>\<open>s = e + one_day\<close>.  A chunk is kept as a pair of dates (the ISO strings
  of the first script are renderings of them).
\<close>

type_synonym chunk = "date \<times> date"

datatype gen_step = Yield chunk | Stop | Raise py_error

definition chunks_test :: "date \<Rightarrow> date \<Rightarrow> int \<Rightarrow> gen_step" where
  "chunks_test s end_d chunk_days =
     (if s \<le> end_d then
        (case timedelta (chunk_days - 1) of
           Inl err \<Rightarrow> Raise err
         | Inr step \<Rightarrow>
            (case date_add s step of
               Inl err \<Rightarrow> Raise err
             | Inr t \<Rightarrow> Yield (s, min t end_d)))
      else Stop)"

definition chunks_resume :: "chunk \<Rightarrow> date \<Rightarrow> int \<Rightarrow> gen_step" where
  "chunks_resume ch end_d chunk_days =
     (case date_add (snd ch) 1 of
        Inl err \<Rightarrow> Raise err
      | Inr s \<Rightarrow> chunks_test s end_d chunk_days)"

text \<open>
  Consuming the generator.  The first argument bounds how many chunks the consumer takes,
  so that a generator that never ends is a value too: the result is the list of chunks
  yielded, and how the generator ended: \<open>Some (Inr ())\<close> is \<^verbatim>\<open>StopIteration\<close>,
  \<open>Some (Inl err)\<close> is an exception, and \<open>None\<close> says that the generator is suspended at a
  further \<^verbatim>\<open>yield\<close>.
\<close>

fun chunks_from :: "nat \<Rightarrow> gen_step \<Rightarrow> date \<Rightarrow> int \<Rightarrow> chunk list \<times> (py_error + unit) option" where
  "chunks_from n Stop end_d chunk_days = ([], Some (Inr ()))"
| "chunks_from n (Raise err) end_d chunk_days = ([], Some (Inl err))"
| "chunks_from 0 (Yield ch) end_d chunk_days = ([], None)"
| "chunks_from (Suc n) (Yield ch) end_d chunk_days =
     (case chunks_from n (chunks_resume ch end_d chunk_days) end_d chunk_days of
        (cs, r) \<Rightarrow> (ch # cs, r))"

definition daterange_chunks :: "nat \<Rightarrow> date \<Rightarrow> date \<Rightarrow> int \<Rightarrow> chunk list \<times> (py_error + unit) option" where
  "daterange_chunks n start end_d chunk_days =
     chunks_from n (chunks_test start end_d chunk_days) end_d chunk_days"

text \<open>
  \<^verbatim>\<open>
  def daterange_chunks(start_date, end_date, chunk_days):   # github_prs_to_csv.py
      cur = start_date
      one_day = timedelta(days=1)
      step = timedelta(days=chunk_days - 1)
      while cur <= end_date:
          chunk_end = min(end_date, cur + step)
          yield cur, chunk_end
          cur = chunk_end + one_day
  \<close>
  The second script builds the step once, before the loop test.
\<close>

definition chunks_test_prs :: "date \<Rightarrow> date \<Rightarrow> int \<Rightarrow> gen_step" where
  "chunks_test_prs cur end_date step =
     (if cur \<le> end_date then
        (case date_add cur step of
           Inl err \<Rightarrow> Raise err
         | Inr t \<Rightarrow> Yield (cur, min end_date t))
      else Stop)"

definition chunks_resume_prs :: "chunk \<Rightarrow> date \<Rightarrow> int \<Rightarrow> gen_step" where
  "chunks_resume_prs ch end_date step =
     (case date_add (snd ch) 1 of
        Inl err \<Rightarrow> Raise err
      | Inr cur \<Rightarrow> chunks_test_prs cur end_date step)"

fun chunks_from_prs :: "nat \<Rightarrow> gen_step \<Rightarrow> date \<Rightarrow> int \<Rightarrow> chunk list \<times> (py_error + unit) option" where
  "chunks_from_prs n Stop end_date step = ([], Some (Inr ()))"
| "chunks_from_prs n (Raise err) end_date step = ([], Some (Inl err))"
| "chunks_from_prs 0 (Yield ch) end_date step = ([], None)"
| "chunks_from_prs (Suc n) (Yield ch) end_date step =
     (case chunks_from_prs n (chunks_resume_prs ch end_date step) end_date step of
        (cs, r) \<Rightarrow> (ch # cs, r))"

definition daterange_chunks_prs :: "nat \<Rightarrow> date \<Rightarrow> date \<Rightarrow> int \<Rightarrow> chunk list \<times> (py_error + unit) option" where
  "daterange_chunks_prs n start_date end_date chunk_days =
     (case timedelta (chunk_days - 1) of
        Inl err \<Rightarrow> ([], Some (Inl err))
      | Inr step \<Rightarrow> chunks_from_prs n (chunks_test_prs start_date end_date step) end_date step)"

text \<open>The calendar days that a chunk covers, both ends included.\<close>

definition chunk_dates :: "chunk \<Rightarrow> date list" where
  "chunk_dates ch = [fst ch..snd ch]"

section \<open>TimeBucketer\<close>

text \<open>
  \<^verbatim>\<open>
  def monday_bucket(dtime: datetime) -> date:            # github_weekly_trends.py,
      d = dtime.date()                                   # major_decision_weekly.py
      return d - timedelta(days=d.weekday())

  def month_bucket(dtime: datetime) -> date:
      d = dtime.date()
      return date(d.year, d.month, 1)
  \<close>
\<close>

definition monday_bucket :: "datetime \<Rightarrow> py_error + date" where
  "monday_bucket dtime = (let d = dt_date dtime in date_add d (- weekday d))"

definition month_bucket :: "datetime \<Rightarrow> py_error + date" where
  "month_bucket dtime = (let d = dt_date dtime in date_ymd (year d) (month d) 1)"

text \<open>
  The timestamp of a bucket key that is a date, as \<^verbatim>\<open>write_csv\<close> builds it:
  \<^verbatim>\<open>datetime(k.year, k.month, k.day, 0, 0, 0, tzinfo=timezone.utc)\<close>.
\<close>

definition datetime_of_date :: "date \<Rightarrow> py_error + datetime" where
  "datetime_of_date k = mk_datetime (year k) (month k) (day k) 0 0 0"

text \<open>
  \<^verbatim>\<open>
  def bucket_key(dt: datetime, bucket: str) -> str:      # github_prs_to_csv.py
      dt = dt.astimezone(timezone.utc)
      if bucket == "daily":
          b = datetime(dt.year, dt.month, dt.day, tzinfo=timezone.utc)
      elif bucket == "weekly":
          monday = dt - timedelta(days=dt.weekday())
          b = datetime(monday.year, monday.month, monday.day, tzinfo=timezone.utc)
      else:
          b = datetime(dt.year, dt.month, 1, tzinfo=timezone.utc)
      return b.strftime("%Y-%m-%dT%H:%M:%SZ")
  \<close>
  \<open>bucket_start\<close> is the value \<^verbatim>\<open>b\<close>.
\<close>

definition bucket_start :: "datetime \<Rightarrow> string \<Rightarrow> py_error + datetime" where
  "bucket_start dt bucket =
     (if bucket = ''daily'' then
        mk_datetime (year (dt_date dt)) (month (dt_date dt)) (day (dt_date dt)) 0 0 0
      else if bucket = ''weekly'' then
        (case datetime_sub_days dt (weekday (dt_date dt)) of
           Inl err \<Rightarrow> Inl err
         | Inr monday \<Rightarrow>
             mk_datetime (year (dt_date monday)) (month (dt_date monday)) (day (dt_date monday)) 0 0 0)
      else mk_datetime (year (dt_date dt)) (month (dt_date dt)) 1 0 0 0)"

definition bucket_key :: "datetime \<Rightarrow> string \<Rightarrow> py_error + string" where
  "bucket_key dt bucket =
     (case bucket_start dt bucket of
        Inl err \<Rightarrow> Inl err
      | Inr b \<Rightarrow> Inr (strftime_iso_z b))"

text \<open>
  \<^verbatim>\<open>
  def monday_bucket(dt: datetime) -> datetime:           # contributors_weekly.py
      dt = dt.astimezone(timezone.utc)
      monday = dt - timedelta(days=dt.weekday())
      return datetime(monday.year, monday.month, monday.day, tzinfo=timezone.utc)

  def iso_z(dt: datetime) -> str:
      return dt.astimezone(timezone.utc).strftime("%Y-%m-%dT%H:%M:%SZ")
  \<close>
\<close>

definition monday_bucket_dt :: "datetime \<Rightarrow> py_error + datetime" where
  "monday_bucket_dt dt =
     (case datetime_sub_days dt (weekday (dt_date dt)) of
        Inl err \<Rightarrow> Inl err
      | Inr monday \<Rightarrow>
          mk_datetime (year (dt_date monday)) (month (dt_date monday)) (day (dt_date monday)) 0 0 0)"

definition iso_z :: "datetime \<Rightarrow> string" where
  "iso_z dt = strftime_iso_z dt"

section \<open>Records of the remote API\<close>

text \<open>
  A JSON object is kept by the fields the scripts read from it.  A field is \<open>None\<close> when the
  key is missing or its value is \<^verbatim>\<open>null\<close>, which is what \<^verbatim>\<open>.get\<close> returns in both cases.
  An item of the search API:
\<close>

record item =
  created_at :: "string option"
  closed_at :: "string option"
  merged_at :: "string option"
  pr_merged_at :: "string option"
  number :: "int option"

text \<open>
  A commit of the commits API: \<^verbatim>\<open>c["commit"]["author"]["date"]\<close>,
  \<^verbatim>\<open>c["author"]["login"]\<close> and \<^verbatim>\<open>c["commit"]["author"]["email"]\<close>.
\<close>

record commit =
  author_date :: "string option"
  author_login :: "string option"
  author_email :: "string option"

text \<open>Python's truth value of an optional string: \<^verbatim>\<open>None\<close> and \<^verbatim>\<open>""\<close> are false.\<close>

fun truthy :: "string option \<Rightarrow> bool" where
  "truthy None = False"
| "truthy (Some s) = (s \<noteq> [])"

text \<open>\<^verbatim>\<open>a or b\<close>.\<close>

definition py_or :: "string option \<Rightarrow> string option \<Rightarrow> string option" where
  "py_or a b = (if truthy a then a else b)"

text \<open>\<^verbatim>\<open>s.endswith(suffix)\<close>.\<close>

definition endswith :: "string \<Rightarrow> string \<Rightarrow> bool" where
  "endswith s suffix \<longleftrightarrow> length suffix \<le> length s \<and> drop (length s - length suffix) s = suffix"

section \<open>Aggregator\<close>

subsection \<open>Tables\<close>

text \<open>
  A Python \<^verbatim>\<open>dict\<close> is a list of key-value pairs in insertion order; the operations keep
  the keys distinct.  \<open>dict_incr\<close> is \<^verbatim>\<open>counter[key] += 1\<close> on a \<^verbatim>\<open>defaultdict(int)\<close>
  (and \<^verbatim>\<open>d[k] = d.get(k, 0) + 1\<close>); \<open>dict_add\<close> is \<^verbatim>\<open>buckets[key].add(x)\<close> on a
  \<^verbatim>\<open>defaultdict(set)\<close>.
\<close>

fun dict_incr :: "'k \<Rightarrow> ('k \<times> int) list \<Rightarrow> ('k \<times> int) list" where
  "dict_incr k [] = [(k, 1)]"
| "dict_incr k ((k', v) # m) = (if k = k' then (k', v + 1) # m else (k', v) # dict_incr k m)"

fun dict_add :: "'k \<Rightarrow> 'v \<Rightarrow> ('k \<times> 'v set) list \<Rightarrow> ('k \<times> 'v set) list" where
  "dict_add k x [] = [(k, {x})]"
| "dict_add k x ((k', s) # m) = (if k = k' then (k', insert x s) # m else (k', s) # dict_add k x m)"

text \<open>\<^verbatim>\<open>{k: len(v) for k, v in sets.items()}\<close>.\<close>

definition set_sizes :: "('k \<times> 'v set) list \<Rightarrow> ('k \<times> int) list" where
  "set_sizes m = map (\<lambda>(k, s). (k, int (card s))) m"

subsection \<open>Counting search items by week (\<^verbatim>\<open>github_weekly_trends.py\<close>, \<^verbatim>\<open>main\<close>)\<close>

text \<open>
  \<^verbatim>\<open>
  for it in items:
      ts = it.get("created_at")          # or another field, by the metric
      if not ts:
          continue
      dt = parse_iso_z(ts)
      key = monday_bucket(dt)
      weekly[key] += 1
  \<close>
  The field read is a parameter.  For merged pull requests it is
  \<^verbatim>\<open>it.get("merged_at") or it.get("pull_request", {}).get("merged_at") or it.get("closed_at")\<close>.
\<close>

definition merged_field :: "item \<Rightarrow> string option" where
  "merged_field it = py_or (py_or (merged_at it) (pr_merged_at it)) (closed_at it)"

fun count_items :: "scanner \<Rightarrow> (item \<Rightarrow> string option) \<Rightarrow> item list \<Rightarrow> (date \<times> int) list
    \<Rightarrow> py_error + (date \<times> int) list" where
  "count_items scan field [] weekly = Inr weekly"
| "count_items scan field (it # items) weekly =
     (case field it of
        None \<Rightarrow> count_items scan field items weekly
      | Some ts \<Rightarrow>
          if ts = [] then count_items scan field items weekly
          else
            (case parse_iso_z scan ts of
               Inl err \<Rightarrow> Inl err
             | Inr dt \<Rightarrow>
                (case monday_bucket dt of
                   Inl err \<Rightarrow> Inl err
                 | Inr key \<Rightarrow> count_items scan field items (dict_incr key weekly))))"


subsection \<open>Commits and contributors by week (\<^verbatim>\<open>github_weekly_trends.py\<close>, \<^verbatim>\<open>main\<close>)\<close>

text \<open>
  \<^verbatim>\<open>
  login = (c.get("author") or {}).get("login")
  if login:
      ident = f"login:{login}"
  else:
      email = (c.get("commit", {}) or {}).get("author", {}).get("email")
      ident = f"email:{email}" if email else "unknown"
  \<close>
\<close>

definition trends_ident :: "commit \<Rightarrow> string" where
  "trends_ident c =
     (if truthy (author_login c) then ''login:'' @ the (author_login c)
      else if truthy (author_email c) then ''email:'' @ the (author_email c)
      else ''unknown'')"

text \<open>
  \<^verbatim>\<open>
  for c in commits:
      ts = (c.get("commit", {}) or {}).get("author", {}).get("date")
      if not ts:
          continue
      dt = parse_iso_z(ts)
      if not (start_d <= dt.date() <= end_d):
          continue
      wk = monday_bucket(dt)
      commits_weekly[wk] += 1
      ...ident as above...
      contributors_weekly_sets[wk].add(ident)
  \<close>
  The state of the loop is the pair of the two tables.
\<close>

fun trends_commits :: "scanner \<Rightarrow> date \<Rightarrow> date \<Rightarrow> commit list
    \<Rightarrow> (date \<times> int) list \<times> (date \<times> string set) list
    \<Rightarrow> py_error + (date \<times> int) list \<times> (date \<times> string set) list" where
  "trends_commits scan start_d end_d [] tables = Inr tables"
| "trends_commits scan start_d end_d (c # commits) tables =
     (case author_date c of
        None \<Rightarrow> trends_commits scan start_d end_d commits tables
      | Some ts \<Rightarrow>
          if ts = [] then trends_commits scan start_d end_d commits tables
          else
            (case parse_iso_z scan ts of
               Inl err \<Rightarrow> Inl err
             | Inr dt \<Rightarrow>
                if \<not> (start_d \<le> dt_date dt \<and> dt_date dt \<le> end_d)
                then trends_commits scan start_d end_d commits tables
                else
                  (case monday_bucket dt of
                     Inl err \<Rightarrow> Inl err
                   | Inr wk \<Rightarrow>
                       trends_commits scan start_d end_d commits
                         (dict_incr wk (fst tables), dict_add wk (trends_ident c) (snd tables)))))"

text \<open>
  The week into which this loop counts a commit: \<open>None\<close> when the loop skips the commit or
  raises on it.
\<close>

definition trends_week :: "scanner \<Rightarrow> date \<Rightarrow> date \<Rightarrow> commit \<Rightarrow> date option" where
  "trends_week scan start_d end_d c =
     (case author_date c of
        None \<Rightarrow> None
      | Some ts \<Rightarrow>
          if ts = [] then None
          else
            (case parse_iso_z scan ts of
               Inl err \<Rightarrow> None
             | Inr dt \<Rightarrow>
                if \<not> (start_d \<le> dt_date dt \<and> dt_date dt \<le> end_d) then None
                else (case monday_bucket dt of Inl err \<Rightarrow> None | Inr wk \<Rightarrow> Some wk)))"

text \<open>\<^verbatim>\<open>contributors_weekly = {k: len(v) for k, v in contributors_weekly_sets.items()}\<close>\<close>

definition trends_contributors :: "scanner \<Rightarrow> date \<Rightarrow> date \<Rightarrow> commit list \<Rightarrow> py_error + (date \<times> int) list" where
  "trends_contributors scan start_d end_d commits =
     (case trends_commits scan start_d end_d commits ([], []) of
        Inl err \<Rightarrow> Inl err
      | Inr tables \<Rightarrow> Inr (set_sizes (snd tables)))"

subsection \<open>Contributors by week (\<^verbatim>\<open>contributors_weekly.py\<close>, \<^verbatim>\<open>main\<close>)\<close>

text \<open>
  \<^verbatim>\<open>
  for c in commits:
      try:
          ts = c["commit"]["author"]["date"]
          dt = datetime.strptime(ts, "%Y-%m-%dT%H:%M:%SZ").replace(tzinfo=timezone.utc)
      except Exception:
          continue
      login = (c.get("author") or {}).get("login")
      email = (c.get("commit") or {}).get("author", {}).get("email")
      ident = login or email
      if not ident:
          continue
      if args.exclude_bots and isinstance(login, str) and login.endswith("[bot]"):
          continue
      key = iso_z(monday_bucket(dt))
      buckets[key].add(ident)
  \<close>
  A missing date raises inside the \<^verbatim>\<open>try\<close> as a text that does not parse does.
\<close>

definition contrib_ident :: "commit \<Rightarrow> string option" where
  "contrib_ident c = py_or (author_login c) (author_email c)"

definition is_bot :: "commit \<Rightarrow> bool" where
  "is_bot c = (case author_login c of None \<Rightarrow> False | Some login \<Rightarrow> endswith login ''[bot]'')"

fun contrib_buckets :: "scanner \<Rightarrow> bool \<Rightarrow> commit list \<Rightarrow> (string \<times> string set) list
    \<Rightarrow> py_error + (string \<times> string set) list" where
  "contrib_buckets scan exclude_bots [] buckets = Inr buckets"
| "contrib_buckets scan exclude_bots (c # commits) buckets =
     (case author_date c of
        None \<Rightarrow> contrib_buckets scan exclude_bots commits buckets
      | Some ts \<Rightarrow>
         (case parse_iso_z scan ts of
            Inl err \<Rightarrow> contrib_buckets scan exclude_bots commits buckets
          | Inr dt \<Rightarrow>
             (case contrib_ident c of
                None \<Rightarrow> contrib_buckets scan exclude_bots commits buckets
              | Some ident \<Rightarrow>
                 if ident = [] then contrib_buckets scan exclude_bots commits buckets
                 else if exclude_bots \<and> is_bot c then contrib_buckets scan exclude_bots commits buckets
                 else
                   (case monday_bucket_dt dt of
                      Inl err \<Rightarrow> Inl err
                    | Inr monday \<Rightarrow>
                        contrib_buckets scan exclude_bots commits
                          (dict_add (iso_z monday) ident buckets)))))"

text \<open>
  The key of the week of a commit in this loop: \<open>None\<close> when the date of the commit is
  missing or does not parse.
\<close>

definition contrib_week :: "scanner \<Rightarrow> commit \<Rightarrow> string option" where
  "contrib_week scan c =
     (case author_date c of
        None \<Rightarrow> None
      | Some ts \<Rightarrow>
         (case parse_iso_z scan ts of
            Inl err \<Rightarrow> None
          | Inr dt \<Rightarrow> (case monday_bucket_dt dt of Inl err \<Rightarrow> None | Inr monday \<Rightarrow> Some (iso_z monday))))"

section \<open>The remote API\<close>

text \<open>
  A request is a \<^verbatim>\<open>GET\<close> of the search API with the parameters \<^verbatim>\<open>q\<close>, \<^verbatim>\<open>per_page\<close> and
  \<^verbatim>\<open>page\<close>, or of one pull request by the owner, the repository and its number.  Of a
  response the scripts read the status code, the text, and the body as JSON: \<open>json_body\<close> is
  \<open>None\<close> when \<^verbatim>\<open>r.json()\<close> raises; otherwise it holds the text that \<^verbatim>\<open>str\<close> makes of the
  JSON value, its \<^verbatim>\<open>.get("items", [])\<close> and its \<^verbatim>\<open>.get("merged_at")\<close>.  The scripts that are
  modelled here read nothing else of a response.
\<close>

datatype request =
    SearchIssues string int int
  | GetPull string string int

datatype json = Json (json_repr: string) (json_items: "item list") (json_merged_at: "string option")

record response =
  status_code :: int
  resp_text :: string
  json_body :: "json option"

text \<open>
  The remote side is not a function of the request: it may answer the same request
  differently the next time.  A server gives the response to a request by the number of
  requests that the run has sent before it.  The run keeps a log of what it did to the world
  outside: the requests it sent and the pauses it made, in order.
\<close>

type_synonym server = "nat \<Rightarrow> request \<Rightarrow> response"

datatype event = Get request | Sleep rat

fun requests_of :: "event list \<Rightarrow> request list" where
  "requests_of [] = []"
| "requests_of (Get req # es) = req # requests_of es"
| "requests_of (Sleep secs # es) = requests_of es"

text \<open>\<^verbatim>\<open>session.get(url, params=...)\<close> and \<^verbatim>\<open>requests.get(url, params=...)\<close>.\<close>

definition http_get :: "server \<Rightarrow> request \<Rightarrow> event list \<Rightarrow> response \<times> event list" where
  "http_get srv req evs = (srv (length (requests_of evs)) req, evs @ [Get req])"

text \<open>
  \<^verbatim>\<open>time.sleep(secs)\<close> raises \<^verbatim>\<open>ValueError\<close> for a negative number.  A pause is a rational
  number of seconds, as every finite \<^verbatim>\<open>float\<close> is.
\<close>

definition py_sleep :: "rat \<Rightarrow> event list \<Rightarrow> (py_error + unit) \<times> event list" where
  "py_sleep secs evs = (if secs < 0 then (Inl ValueError, evs) else (Inr (), evs @ [Sleep secs]))"

text \<open>
  \<^verbatim>\<open>r.raise_for_status()\<close> raises \<^verbatim>\<open>HTTPError\<close> for the status codes 400 to 599.  The error
  knows the request and the response.
\<close>

fun http_error :: "request \<Rightarrow> response \<Rightarrow> py_error" where
  "http_error (SearchIssues q per_page page) r =
     HTTPError (status_code r) ''search/issues'' q page (resp_text r)"
| "http_error (GetPull owner repo n) r =
     HTTPError (status_code r) (''repos/'' @ owner @ ''/'' @ repo @ ''/pulls'') [] n (resp_text r)"

definition raise_for_status :: "request \<Rightarrow> response \<Rightarrow> py_error + unit" where
  "raise_for_status req r =
     (if 400 \<le> status_code r \<and> status_code r < 600 then Inl (http_error req r) else Inr ())"

text \<open>
  \<^verbatim>\<open>
  try:
      err = r.json()
  except Exception:
      err = r.text
  \<close>
\<close>

definition err_payload :: "response \<Rightarrow> string" where
  "err_payload r = (case json_body r of Some data \<Rightarrow> json_repr data | None \<Rightarrow> resp_text r)"

section \<open>Fetcher\<close>

subsection \<open>\<^verbatim>\<open>fetch_search\<close> (\<^verbatim>\<open>github_prs_to_csv.py\<close>)\<close>

text \<open>
  \<^verbatim>\<open>
  def fetch_search(session, query, token, per_page=100, max_pages=10, pause=0.2):
      ...
      all_items = []
      for page in range(1, max_pages + 1):
          r = session.get(SEARCH_URL, headers=headers,
                          params={"q": query, "per_page": per_page, "page": page}, timeout=30)
          if r.status_code != 200:
              try:
                  err = r.json()
              except Exception:
                  err = r.text
              raise SystemExit(f"GitHub search error {r.status_code} for query `{query}` page {page}:\n{err}")
          data = r.json()
          items = data.get("items", [])
          all_items += items
          if len(items) < per_page:
              break
          time.sleep(pause)
      return all_items
  \<close>
  \<open>fetch_search_pages\<close> is the loop over the pages that are left.
\<close>

fun fetch_search_pages :: "server \<Rightarrow> string \<Rightarrow> int \<Rightarrow> rat \<Rightarrow> int list \<Rightarrow> item list \<Rightarrow> event list
    \<Rightarrow> (py_error + item list) \<times> event list" where
  "fetch_search_pages srv query per_page pause [] all_items evs = (Inr all_items, evs)"
| "fetch_search_pages srv query per_page pause (page # pages) all_items evs =
     (case http_get srv (SearchIssues query per_page page) evs of
        (r, evs1) \<Rightarrow>
          if status_code r \<noteq> 200
          then (Inl (SystemExit_search (status_code r) query page (err_payload r)), evs1)
          else
            (case json_body r of
               None \<Rightarrow> (Inl JSONDecodeError, evs1)
             | Some data \<Rightarrow>
                 if int (length (json_items data)) < per_page
                 then (Inr (all_items @ json_items data), evs1)
                 else
                   (case py_sleep pause evs1 of
                      (Inl err, evs2) \<Rightarrow> (Inl err, evs2)
                    | (Inr u, evs2) \<Rightarrow>
                        fetch_search_pages srv query per_page pause pages
                          (all_items @ json_items data) evs2)))"

definition fetch_search :: "server \<Rightarrow> string \<Rightarrow> int \<Rightarrow> int \<Rightarrow> rat \<Rightarrow> event list
    \<Rightarrow> (py_error + item list) \<times> event list" where
  "fetch_search srv query per_page max_pages pause evs =
     fetch_search_pages srv query per_page pause [1..max_pages] [] evs"

subsection \<open>\<^verbatim>\<open>search_items\<close> (\<^verbatim>\<open>github_weekly_trends.py\<close>)\<close>

text \<open>
  \<^verbatim>\<open>
  def search_items(session, q, token, max_pages=10, pause=0.5):
      url = "https://api.github.com/search/issues"
      params = {"q": q, "per_page": 100, "page": 1}
      items = []
      for page in range(1, max_pages + 1):
          params["page"] = page
          r = session.get(url, params=params, timeout=30)
          if r.status_code == 422:
              r.raise_for_status()
          r.raise_for_status()
          data = r.json()
          batch = data.get("items", [])
          items.extend(batch)
          if len(batch) < 100:
              break
          time.sleep(pause)
      return items
  \<close>
\<close>

fun search_items_pages :: "server \<Rightarrow> string \<Rightarrow> rat \<Rightarrow> int list \<Rightarrow> item list \<Rightarrow> event list
    \<Rightarrow> (py_error + item list) \<times> event list" where
  "search_items_pages srv q pause [] items evs = (Inr items, evs)"
| "search_items_pages srv q pause (page # pages) items evs =
     (case http_get srv (SearchIssues q 100 page) evs of
        (r, evs1) \<Rightarrow>
          (case (if status_code r = 422 then raise_for_status (SearchIssues q 100 page) r else Inr ()) of
             Inl err \<Rightarrow> (Inl err, evs1)
           | Inr u \<Rightarrow>
              (case raise_for_status (SearchIssues q 100 page) r of
                 Inl err \<Rightarrow> (Inl err, evs1)
               | Inr u \<Rightarrow>
                  (case json_body r of
                     None \<Rightarrow> (Inl JSONDecodeError, evs1)
                   | Some data \<Rightarrow>
                       if length (json_items data) < 100
                       then (Inr (items @ json_items data), evs1)
                       else
                         (case py_sleep pause evs1 of
                            (Inl err, evs2) \<Rightarrow> (Inl err, evs2)
                          | (Inr u, evs2) \<Rightarrow>
                              search_items_pages srv q pause pages (items @ json_items data) evs2)))))"

definition search_items :: "server \<Rightarrow> string \<Rightarrow> int \<Rightarrow> rat \<Rightarrow> event list
    \<Rightarrow> (py_error + item list) \<times> event list" where
  "search_items srv q max_pages pause evs = search_items_pages srv q pause [1..max_pages] [] evs"

subsection \<open>\<^verbatim>\<open>search_label\<close> (\<^verbatim>\<open>major_decision_weekly.py\<close>)\<close>

text \<open>
  \<^verbatim>\<open>
  params = {"q": q, "per_page": 100, "page": 1}
  items = []
  while True:
      r = requests.get(url, headers=headers, params=params, timeout=30)
      if r.status_code == 403:
          print("Hit rate limit; pausing 5s...")
          time.sleep(5)
          continue
      r.raise_for_status()
      data = r.json()
      page_items = data.get("items", [])
      items.extend(page_items)
      if len(page_items) < 100:
          break
      params["page"] += 1
      time.sleep(0.5)
  return items, ts_field
  \<close>
  The loop has no bound of its own.  The first argument of \<open>search_label_loop\<close> bounds the
  number of requests that are followed: the result is \<open>None\<close> when the loop is still running
  after that many requests.  The state of the loop is the page, the items and the log.
\<close>

fun search_label_loop :: "nat \<Rightarrow> server \<Rightarrow> string \<Rightarrow> int \<Rightarrow> item list \<Rightarrow> event list
    \<Rightarrow> ((py_error + item list) \<times> event list) option" where
  "search_label_loop 0 srv q page items evs = None"
| "search_label_loop (Suc n) srv q page items evs =
     (case http_get srv (SearchIssues q 100 page) evs of
        (r, evs1) \<Rightarrow>
          if status_code r = 403 then
            (case py_sleep 5 evs1 of
               (Inl err, evs2) \<Rightarrow> Some (Inl err, evs2)
             | (Inr u, evs2) \<Rightarrow> search_label_loop n srv q page items evs2)
          else
            (case raise_for_status (SearchIssues q 100 page) r of
               Inl err \<Rightarrow> Some (Inl err, evs1)
             | Inr u \<Rightarrow>
                (case json_body r of
                   None \<Rightarrow> Some (Inl JSONDecodeError, evs1)
                 | Some data \<Rightarrow>
                     if length (json_items data) < 100
                     then Some (Inr (items @ json_items data), evs1)
                     else
                       (case py_sleep (1 / 2) evs1 of
                          (Inl err, evs2) \<Rightarrow> Some (Inl err, evs2)
                        | (Inr u, evs2) \<Rightarrow>
                            search_label_loop n srv q (page + 1) (items @ json_items data) evs2))))"

text \<open>
  \<^verbatim>\<open>
  base = f'repo:{owner}/{repo} is:issue label:"{LABEL_TEXT}"'
  if which == "opened":
      q = f"{base} created:{start.isoformat()}..{end.isoformat()}"
      ts_field = "created_at"
  else:
      q = f"{base} is:closed closed:{start.isoformat()}..{end.isoformat()}"
      ts_field = "closed_at"
  \<close>
\<close>

definition LABEL_TEXT :: string where
  "LABEL_TEXT = ''major-decision-pending''"

definition search_label_query :: "string \<Rightarrow> string \<Rightarrow> string \<Rightarrow> date \<Rightarrow> date \<Rightarrow> string" where
  "search_label_query owner repo which start end_d =
     (let base = ''repo:'' @ owner @ ''/'' @ repo @ '' is:issue label:\"'' @ LABEL_TEXT @ ''\"'' in
      if which = ''opened''
      then base @ '' created:'' @ isoformat start @ ''..'' @ isoformat end_d
      else base @ '' is:closed closed:'' @ isoformat start @ ''..'' @ isoformat end_d)"

definition search_label_field :: "string \<Rightarrow> item \<Rightarrow> string option" where
  "search_label_field which = (if which = ''opened'' then created_at else closed_at)"

definition search_label :: "nat \<Rightarrow> server \<Rightarrow> string \<Rightarrow> string \<Rightarrow> string \<Rightarrow> date \<Rightarrow> date \<Rightarrow> event list
    \<Rightarrow> ((py_error + item list \<times> (item \<Rightarrow> string option)) \<times> event list) option" where
  "search_label n srv owner repo which start end_d evs =
     (case search_label_loop n srv (search_label_query owner repo which start end_d) 1 [] evs of
        None \<Rightarrow> None
      | Some (Inl err, evs1) \<Rightarrow> Some (Inl err, evs1)
      | Some (Inr items, evs1) \<Rightarrow> Some (Inr (items, search_label_field which), evs1))"
section \<open>Sink: the CSV files\<close>

text \<open>
  A CSV file is the list of its rows, a row the list of its cells; a cell is a text or a
  number, as the script hands it to \<^verbatim>\<open>csv.writer\<close>.  The file system maps a path to the
  rows of the file there.
\<close>

datatype cell = CStr string | CInt int

type_synonym csv = "cell list list"

type_synonym filesystem = "string \<rightharpoonup> csv"

definition csv_header :: "cell list" where
  "csv_header = [CStr ''time'', CStr ''count'']"


definition csv_row :: "date \<times> int \<Rightarrow> py_error + cell list" where
  "csv_row kv =
     (case datetime_of_date (fst kv) of
        Inl err \<Rightarrow> Inl err
      | Inr dt \<Rightarrow> Inr [CStr (strftime_midnight dt), CInt (snd kv)])"

fun write_rows :: "(date \<times> int) list \<Rightarrow> csv \<Rightarrow> csv \<times> py_error option" where
  "write_rows [] f = (f, None)"
| "write_rows (kv # rows) f =
     (case csv_row kv of
        Inl err \<Rightarrow> (f, Some err)
      | Inr row \<Rightarrow> write_rows rows (f @ [row]))"

definition write_csv :: "string \<Rightarrow> (date \<times> int) list \<Rightarrow> filesystem \<Rightarrow> filesystem \<times> py_error option" where
  "write_csv path counter fs =
     (case write_rows (sort counter) [csv_header] of
        (f, err) \<Rightarrow> (fs(path \<mapsto> f), err))"

text \<open>
  \<^verbatim>\<open>
  rows = sorted((k, len(v)) for k, v in buckets.items())     # contributors_weekly.py
  with open(args.out, "w", newline="", encoding="utf-8") as f:
      w = csv.writer(f)
      w.writerow(["time", "count"])
      w.writerows(rows)
  \<close>
  and, in \<^verbatim>\<open>github_prs_to_csv.py\<close>, the same with \<^verbatim>\<open>rows = sorted(counts.items())\<close>.
  The keys are texts here, and are compared as texts.
\<close>

definition write_rows_str :: "string \<Rightarrow> (string \<times> int) list \<Rightarrow> filesystem \<Rightarrow> filesystem" where
  "write_rows_str path rows fs = fs(path \<mapsto> csv_header # map (\<lambda>(k, v). [CStr k, CInt v]) rows)"

definition contributors_weekly_rows :: "scanner \<Rightarrow> bool \<Rightarrow> commit list \<Rightarrow> py_error + (string \<times> int) list" where
  "contributors_weekly_rows scan exclude_bots commits =
     (case contrib_buckets scan exclude_bots commits [] of
        Inl err \<Rightarrow> Inl err
      | Inr buckets \<Rightarrow> Inr (sort (set_sizes buckets)))"





section \<open>The runs\<close>

subsection \<open>\<^verbatim>\<open>main\<close> of \<^verbatim>\<open>github_prs_to_csv.py\<close>\<close>

text \<open>
  The arguments of the command line, as \<^verbatim>\<open>parse_args\<close> returns them.  The window of dates
  comes from \<^verbatim>\<open>calc_range\<close>, which reads the clock, and is a parameter of the run.
\<close>

record prs_args =
  a_owner :: string
  a_repo :: string
  a_metric :: string
  a_bucket :: string
  a_out :: string
  a_max_pages :: int
  a_pause :: rat
  a_chunk_days :: int

text \<open>
  \<^verbatim>\<open>
  def build_query(owner, repo, metric, start, end):
      base = f"repo:{owner}/{repo} is:pr"
      if metric == "opened":
          return f"{base} created:{start}..{end}"
      if metric == "closed":
          return f"{base} is:closed closed:{start}..{end}"
      return f"{base} is:merged merged:{start}..{end}"
  \<close>
  \<^verbatim>\<open>start\<close> and \<^verbatim>\<open>end\<close> are dates here, and are formatted by \<^verbatim>\<open>str\<close>.
\<close>

definition build_query :: "string \<Rightarrow> string \<Rightarrow> string \<Rightarrow> date \<Rightarrow> date \<Rightarrow> string" where
  "build_query owner repo metric start end_d =
     (let base = ''repo:'' @ owner @ ''/'' @ repo @ '' is:pr'' in
      if metric = ''opened'' then base @ '' created:'' @ isoformat start @ ''..'' @ isoformat end_d
      else if metric = ''closed''
      then base @ '' is:closed closed:'' @ isoformat start @ ''..'' @ isoformat end_d
      else base @ '' is:merged merged:'' @ isoformat start @ ''..'' @ isoformat end_d)"

text \<open>
  \<^verbatim>\<open>
  def fetch_pull_merged_at(session, owner, repo, number, token):
      ...
      r = session.get(url, headers=headers, timeout=30)
      if r.status_code != 200:
          try:
              err = r.json()
          except Exception:
              err = r.text
          raise SystemExit(f"GitHub PR fetch error {r.status_code} for PR #{number}:\n{err}")
      return r.json().get("merged_at")
  \<close>
\<close>

definition fetch_pull_merged_at :: "server \<Rightarrow> string \<Rightarrow> string \<Rightarrow> int \<Rightarrow> event list
    \<Rightarrow> (py_error + string option) \<times> event list" where
  "fetch_pull_merged_at srv owner repo n evs =
     (case http_get srv (GetPull owner repo n) evs of
        (r, evs1) \<Rightarrow>
          if status_code r \<noteq> 200
          then (Inl (SystemExit_pull (status_code r) n (err_payload r)), evs1)
          else
            (case json_body r of
               None \<Rightarrow> (Inl JSONDecodeError, evs1)
             | Some data \<Rightarrow> (Inr (json_merged_at data), evs1)))"

text \<open>
  \<^verbatim>\<open>
  for it in items:
      if a.metric == "opened":
          ts = it.get("created_at")
      elif a.metric == "closed":
          ts = it.get("closed_at")
      else:  # merged
          num = it.get("number")
          ts = fetch_pull_merged_at(session, a.owner, a.repo, num, a.token) if num is not None else None
      if not ts:
          continue
      dt = datetime.strptime(ts, "%Y-%m-%dT%H:%M:%SZ").replace(tzinfo=timezone.utc)
      key = bucket_key(dt, a.bucket)
      counts[key] += 1
  \<close>
\<close>

definition prs_timestamp :: "server \<Rightarrow> prs_args \<Rightarrow> item \<Rightarrow> event list
    \<Rightarrow> (py_error + string option) \<times> event list" where
  "prs_timestamp srv a it evs =
     (if a_metric a = ''opened'' then (Inr (created_at it), evs)
      else if a_metric a = ''closed'' then (Inr (closed_at it), evs)
      else
        (case number it of
           None \<Rightarrow> (Inr None, evs)
         | Some pr \<Rightarrow> fetch_pull_merged_at srv (a_owner a) (a_repo a) pr evs))"

fun prs_items :: "server \<Rightarrow> scanner \<Rightarrow> prs_args \<Rightarrow> item list \<Rightarrow> (string \<times> int) list \<Rightarrow> event list
    \<Rightarrow> (py_error + (string \<times> int) list) \<times> event list" where
  "prs_items srv scan a [] counts evs = (Inr counts, evs)"
| "prs_items srv scan a (it # items) counts evs =
     (case prs_timestamp srv a it evs of
        (Inl err, evs1) \<Rightarrow> (Inl err, evs1)
      | (Inr ts, evs1) \<Rightarrow>
          if \<not> truthy ts then prs_items srv scan a items counts evs1
          else
            (case parse_iso_z scan (the ts) of
               Inl err \<Rightarrow> (Inl err, evs1)
             | Inr dt \<Rightarrow>
                (case bucket_key dt (a_bucket a) of
                   Inl err \<Rightarrow> (Inl err, evs1)
                 | Inr key \<Rightarrow> prs_items srv scan a items (dict_incr key counts) evs1)))"

text \<open>
  \<^verbatim>\<open>
  for chunk_start, chunk_end in daterange_chunks(start_date, end_date, a.chunk_days):
      q = build_query(a.owner, a.repo, a.metric, chunk_start, chunk_end)
      items = fetch_search(session, q, a.token, max_pages=a.max_pages, pause=a.pause)
      for it in items:
          ...
  \<close>
  The loop takes the chunks from the generator one by one.  Its first argument bounds the
  number of chunks, as in \<open>chunks_from_prs\<close>; the result is \<open>None\<close> when the loop is still
  running after that many chunks.
\<close>

fun prs_chunks :: "nat \<Rightarrow> gen_step \<Rightarrow> server \<Rightarrow> scanner \<Rightarrow> prs_args \<Rightarrow> date \<Rightarrow> int
    \<Rightarrow> (string \<times> int) list \<Rightarrow> event list
    \<Rightarrow> ((py_error + (string \<times> int) list) \<times> event list) option" where
  "prs_chunks n Stop srv scan a end_date step counts evs = Some (Inr counts, evs)"
| "prs_chunks n (Raise err) srv scan a end_date step counts evs = Some (Inl err, evs)"
| "prs_chunks 0 (Yield ch) srv scan a end_date step counts evs = None"
| "prs_chunks (Suc n) (Yield ch) srv scan a end_date step counts evs =
     (case fetch_search srv (build_query (a_owner a) (a_repo a) (a_metric a) (fst ch) (snd ch))
             100 (a_max_pages a) (a_pause a) evs of
        (Inl err, evs1) \<Rightarrow> Some (Inl err, evs1)
      | (Inr items, evs1) \<Rightarrow>
          (case prs_items srv scan a items counts evs1 of
             (Inl err, evs2) \<Rightarrow> Some (Inl err, evs2)
           | (Inr counts1, evs2) \<Rightarrow>
               prs_chunks n (chunks_resume_prs ch end_date step) srv scan a end_date step counts1 evs2))"

text \<open>
  \<^verbatim>\<open>
  def main():
      a = parse_args()
      start_date, end_date = calc_range(a)
      counts = defaultdict(int)
      session = requests.Session()
      for chunk_start, chunk_end in daterange_chunks(start_date, end_date, a.chunk_days):
          ...
      rows = sorted(counts.items())
      with open(a.out, "w", newline="", encoding="utf-8") as f:
          w = csv.writer(f)
          w.writerow(["time", "count"])
          w.writerows(rows)
  \<close>
  The result is how the run ends, the file system and the log.  No exception is caught.
\<close>

definition main_prs :: "nat \<Rightarrow> server \<Rightarrow> scanner \<Rightarrow> prs_args \<Rightarrow> date \<Rightarrow> date \<Rightarrow> filesystem \<Rightarrow> event list
    \<Rightarrow> ((py_error + unit) \<times> filesystem \<times> event list) option" where
  "main_prs n srv scan a start_date end_date fs evs =
     (case timedelta (a_chunk_days a - 1) of
        Inl err \<Rightarrow> Some (Inl err, fs, evs)
      | Inr step \<Rightarrow>
          (case prs_chunks n (chunks_test_prs start_date end_date step) srv scan a end_date step [] evs of
             None \<Rightarrow> None
           | Some (Inl err, evs1) \<Rightarrow> Some (Inl err, fs, evs1)
           | Some (Inr counts, evs1) \<Rightarrow> Some (Inr (), write_rows_str (a_out a) (sort counts) fs, evs1)))"

subsection \<open>\<^verbatim>\<open>main\<close> of \<^verbatim>\<open>github_weekly_trends.py\<close>: the searches\<close>

text \<open>
  \<^verbatim>\<open>
  def build_query_pr(owner, repo, which, start_date, end_date) -> str:
      base = f"repo:{owner}/{repo} is:pr"
      if which == "opened":
          return f"{base} created:{start_date}..{end_date}"
      elif which == "closed":
          return f"{base} is:closed closed:{start_date}..{end_date}"
      elif which == "merged":
          return f"{base} is:merged merged:{start_date}..{end_date}"
      else:
          raise ValueError("which must be opened|closed|merged")
  \<close>
  and likewise \<^verbatim>\<open>build_query_issue\<close> and \<^verbatim>\<open>build_query_labeled_issue\<close>, for \<^verbatim>\<open>opened\<close> and
  \<^verbatim>\<open>closed\<close>.  The dates are the texts that \<^verbatim>\<open>daterange_chunks\<close> yields.
\<close>

definition build_query_pr :: "string \<Rightarrow> string \<Rightarrow> string \<Rightarrow> string \<Rightarrow> string \<Rightarrow> py_error + string" where
  "build_query_pr owner repo which start_date end_date =
     (let base = ''repo:'' @ owner @ ''/'' @ repo @ '' is:pr'' in
      if which = ''opened'' then Inr (base @ '' created:'' @ start_date @ ''..'' @ end_date)
      else if which = ''closed'' then Inr (base @ '' is:closed closed:'' @ start_date @ ''..'' @ end_date)
      else if which = ''merged'' then Inr (base @ '' is:merged merged:'' @ start_date @ ''..'' @ end_date)
      else Inl ValueError)"

definition build_query_issue :: "string \<Rightarrow> string \<Rightarrow> string \<Rightarrow> string \<Rightarrow> string \<Rightarrow> py_error + string" where
  "build_query_issue owner repo which start_date end_date =
     (let base = ''repo:'' @ owner @ ''/'' @ repo @ '' is:issue'' in
      if which = ''opened'' then Inr (base @ '' created:'' @ start_date @ ''..'' @ end_date)
      else if which = ''closed'' then Inr (base @ '' is:closed closed:'' @ start_date @ ''..'' @ end_date)
      else Inl ValueError)"

definition build_query_labeled_issue :: "string \<Rightarrow> string \<Rightarrow> string \<Rightarrow> string \<Rightarrow> string \<Rightarrow> string
    \<Rightarrow> py_error + string" where
  "build_query_labeled_issue owner repo label which start_date end_date =
     (let base = ''repo:'' @ owner @ ''/'' @ repo @ '' is:issue label:\"'' @ label @ ''\"'' in
      if which = ''opened'' then Inr (base @ '' created:'' @ start_date @ ''..'' @ end_date)
      else if which = ''closed'' then Inr (base @ '' is:closed closed:'' @ start_date @ ''..'' @ end_date)
      else Inl ValueError)"

text \<open>
  Each of the searches of \<^verbatim>\<open>main\<close> is the same piece of code with another query, another
  timestamp field and another file:
  \<^verbatim>\<open>
  weekly = defaultdict(int)
  for s, e in daterange_chunks(start_d, end_d, args.chunk_days):
      q = build_query_pr(args.owner, args.repo, which, s, e)
      items = search_items(session, q, token, max_pages=args.max_pages, pause=args.pause)
      for it in items:
          ts = ...
          if not ts:
              continue
          dt = parse_iso_z(ts)
          key = monday_bucket(dt)
          weekly[key] += 1
  write_csv(os.path.join(args.out_dir, f"prs_{which}_weekly.csv"), weekly)
  \<close>
  A job is one of them.
\<close>

record job =
  job_query :: "string \<Rightarrow> string \<Rightarrow> py_error + string"
  job_field :: "item \<Rightarrow> string option"
  job_path :: string

record trends_args =
  t_owner :: string
  t_repo :: string
  t_out_dir :: string
  t_chunk_days :: int
  t_max_pages :: int
  t_pause :: rat

fun trends_chunks :: "nat \<Rightarrow> gen_step \<Rightarrow> server \<Rightarrow> scanner \<Rightarrow> trends_args \<Rightarrow> job \<Rightarrow> date
    \<Rightarrow> (date \<times> int) list \<Rightarrow> event list
    \<Rightarrow> ((py_error + (date \<times> int) list) \<times> event list) option" where
  "trends_chunks n Stop srv scan a jb end_d weekly evs = Some (Inr weekly, evs)"
| "trends_chunks n (Raise err) srv scan a jb end_d weekly evs = Some (Inl err, evs)"
| "trends_chunks 0 (Yield ch) srv scan a jb end_d weekly evs = None"
| "trends_chunks (Suc n) (Yield ch) srv scan a jb end_d weekly evs =
     (case job_query jb (isoformat (fst ch)) (isoformat (snd ch)) of
        Inl err \<Rightarrow> Some (Inl err, evs)
      | Inr q \<Rightarrow>
         (case search_items srv q (t_max_pages a) (t_pause a) evs of
            (Inl err, evs1) \<Rightarrow> Some (Inl err, evs1)
          | (Inr items, evs1) \<Rightarrow>
              (case count_items scan (job_field jb) items weekly of
                 Inl err \<Rightarrow> Some (Inl err, evs1)
               | Inr weekly1 \<Rightarrow>
                   trends_chunks n (chunks_resume ch end_d (t_chunk_days a)) srv scan a jb end_d
                     weekly1 evs1)))"

definition trends_job :: "nat \<Rightarrow> server \<Rightarrow> scanner \<Rightarrow> trends_args \<Rightarrow> date \<Rightarrow> date \<Rightarrow> job
    \<Rightarrow> filesystem \<Rightarrow> event list \<Rightarrow> ((py_error + unit) \<times> filesystem \<times> event list) option" where
  "trends_job n srv scan a start_d end_d jb fs evs =
     (case trends_chunks n (chunks_test start_d end_d (t_chunk_days a)) srv scan a jb end_d [] evs of
        None \<Rightarrow> None
      | Some (Inl err, evs1) \<Rightarrow> Some (Inl err, fs, evs1)
      | Some (Inr weekly, evs1) \<Rightarrow>
          (case write_csv (job_path jb) weekly fs of
             (fs1, None) \<Rightarrow> Some (Inr (), fs1, evs1)
           | (fs1, Some err) \<Rightarrow> Some (Inl err, fs1, evs1)))"

text \<open>The jobs run one after the other; an exception ends the run.\<close>

fun trends_jobs :: "nat \<Rightarrow> server \<Rightarrow> scanner \<Rightarrow> trends_args \<Rightarrow> date \<Rightarrow> date \<Rightarrow> job list
    \<Rightarrow> filesystem \<Rightarrow> event list \<Rightarrow> ((py_error + unit) \<times> filesystem \<times> event list) option" where
  "trends_jobs n srv scan a start_d end_d [] fs evs = Some (Inr (), fs, evs)"
| "trends_jobs n srv scan a start_d end_d (jb # jobs) fs evs =
     (case trends_job n srv scan a start_d end_d jb fs evs of
        None \<Rightarrow> None
      | Some (Inl err, fs1, evs1) \<Rightarrow> Some (Inl err, fs1, evs1)
      | Some (Inr u, fs1, evs1) \<Rightarrow> trends_jobs n srv scan a start_d end_d jobs fs1 evs1)"

text \<open>
  \<^verbatim>\<open>os.path.join(args.out_dir, name)\<close> for a file name, which does not begin with a slash.
\<close>

definition path_join :: "string \<Rightarrow> string \<Rightarrow> string" where
  "path_join dir name = (if dir = [] \<or> last dir = CHR ''/'' then dir @ name else dir @ ''/'' @ name)"

text \<open>
  The jobs of \<^verbatim>\<open>main\<close>, in its order: the pull requests opened, closed and merged; the
  issues opened and closed; and for each label the issues opened and closed.  The labels are
  the list that \<^verbatim>\<open>main\<close> makes of its arguments, and \<^verbatim>\<open>slugify_label\<close> is a parameter.
\<close>

definition pr_field :: "string \<Rightarrow> item \<Rightarrow> string option" where
  "pr_field which it =
     (if which = ''opened'' then created_at it
      else if which = ''closed'' then closed_at it
      else merged_field it)"

definition issue_field :: "string \<Rightarrow> item \<Rightarrow> string option" where
  "issue_field which it = (if which = ''opened'' then created_at it else closed_at it)"

definition pr_jobs :: "trends_args \<Rightarrow> job list" where
  "pr_jobs a =
     map (\<lambda>which. \<lparr>job_query = build_query_pr (t_owner a) (t_repo a) which,
                    job_field = pr_field which,
                    job_path = path_join (t_out_dir a) (''prs_'' @ which @ ''_weekly.csv'')\<rparr>)
       [''opened'', ''closed'', ''merged'']"

definition issue_jobs :: "trends_args \<Rightarrow> job list" where
  "issue_jobs a =
     map (\<lambda>which. \<lparr>job_query = build_query_issue (t_owner a) (t_repo a) which,
                    job_field = issue_field which,
                    job_path = path_join (t_out_dir a) (''issues_'' @ which @ ''_weekly.csv'')\<rparr>)
       [''opened'', ''closed'']"

definition label_jobs :: "trends_args \<Rightarrow> (string \<Rightarrow> string) \<Rightarrow> string list \<Rightarrow> job list" where
  "label_jobs a slugify_label labels =
     concat (map (\<lambda>label.
       map (\<lambda>which. \<lparr>job_query = build_query_labeled_issue (t_owner a) (t_repo a) label which,
                      job_field = issue_field which,
                      job_path = path_join (t_out_dir a)
                        (''label-'' @ slugify_label label @ ''_'' @ which @ ''_weekly.csv'')\<rparr>)
         [''opened'', ''closed'']) labels)"

text \<open>
  The part of \<^verbatim>\<open>main\<close> from the first search to the last search for a label.  (The commits,
  the contributors and the releases follow in \<^verbatim>\<open>main\<close>.)  The exceptions that leave \<^verbatim>\<open>main\<close>
  are caught at the end of the script, which prints them and exits with the status 1.
\<close>

definition main_searches :: "nat \<Rightarrow> server \<Rightarrow> scanner \<Rightarrow> trends_args \<Rightarrow> (string \<Rightarrow> string) \<Rightarrow> string list
    \<Rightarrow> date \<Rightarrow> date \<Rightarrow> filesystem \<Rightarrow> event list
    \<Rightarrow> ((py_error + unit) \<times> filesystem \<times> event list) option" where
  "main_searches n srv scan a slugify_label labels start_d end_d fs evs =
     trends_jobs n srv scan a start_d end_d
       (pr_jobs a @ issue_jobs a @ label_jobs a slugify_label labels) fs evs"

subsection \<open>Responses that are not a success\<close>

text \<open>
  For the statements about a whole run.  \<^verbatim>\<open>github_prs_to_csv.py\<close> takes every status but 200
  for a failure, and raises the \<^verbatim>\<open>SystemExit\<close> that \<open>api_error\<close> gives;
  \<^verbatim>\<open>github_weekly_trends.py\<close> takes the status codes 400 to 599 for a failure, and raises the
  \<^verbatim>\<open>HTTPError\<close> that \<open>http_error\<close> gives.
\<close>

definition not_200 :: "int \<Rightarrow> bool" where
  "not_200 s \<longleftrightarrow> s \<noteq> 200"

definition error_status :: "int \<Rightarrow> bool" where
  "error_status s \<longleftrightarrow> 400 \<le> s \<and> s < 600"

fun api_error :: "request \<Rightarrow> response \<Rightarrow> py_error" where
  "api_error (SearchIssues q per_page page) r = SystemExit_search (status_code r) q page (err_payload r)"
| "api_error (GetPull owner repo n) r = SystemExit_pull (status_code r) n (err_payload r)"

text \<open>
  Of the requests of a piece of a run, the first of which is the request number \<open>g\<close> of the
  run: \<open>all_ok\<close>, no response was a failure; \<open>fails_at_last\<close>, the response to the last
  request was a failure, no response before it was one, and the piece ended with the error for
  that response.  \<open>piece\<close>: the log \<open>evs'\<close> continues the log \<open>evs\<close>, and one of the two is true
  of the requests made since.
\<close>

fun all_ok :: "(int \<Rightarrow> bool) \<Rightarrow> server \<Rightarrow> nat \<Rightarrow> request list \<Rightarrow> bool" where
  "all_ok bad srv g [] = True"
| "all_ok bad srv g (req # reqs) = (\<not> bad (status_code (srv g req)) \<and> all_ok bad srv (Suc g) reqs)"

fun fails_at_last :: "(int \<Rightarrow> bool) \<Rightarrow> (request \<Rightarrow> response \<Rightarrow> py_error) \<Rightarrow> server \<Rightarrow> nat
    \<Rightarrow> request list \<Rightarrow> py_error option \<Rightarrow> bool" where
  "fails_at_last bad mk srv g [] err = False"
| "fails_at_last bad mk srv g [req] err =
     (bad (status_code (srv g req)) \<and> err = Some (mk req (srv g req)))"
| "fails_at_last bad mk srv g (req # reqs) err =
     (\<not> bad (status_code (srv g req)) \<and> fails_at_last bad mk srv (Suc g) reqs err)"

definition run_ok :: "(int \<Rightarrow> bool) \<Rightarrow> (request \<Rightarrow> response \<Rightarrow> py_error) \<Rightarrow> server \<Rightarrow> nat
    \<Rightarrow> request list \<Rightarrow> py_error option \<Rightarrow> bool" where
  "run_ok bad mk srv g reqs err \<longleftrightarrow> all_ok bad srv g reqs \<or> fails_at_last bad mk srv g reqs err"

definition piece :: "(int \<Rightarrow> bool) \<Rightarrow> (request \<Rightarrow> response \<Rightarrow> py_error) \<Rightarrow> server
    \<Rightarrow> event list \<Rightarrow> event list \<Rightarrow> py_error option \<Rightarrow> bool" where
  "piece bad mk srv evs evs' err \<longleftrightarrow>
     take (length evs) evs' = evs
     \<and> run_ok bad mk srv (length (requests_of evs)) (requests_of (drop (length evs) evs')) err"

definition err_of :: "py_error + 'a \<Rightarrow> py_error option" where
  "err_of res = (case res of Inl err \<Rightarrow> Some err | Inr x \<Rightarrow> None)"
section \<open>Worked examples\<close>

text \<open>
  Three pull requests opened at 2024-01-01T10:00:00Z, 2024-01-02T09:00:00Z and
  2024-01-08T10:00:00Z.
\<close>

definition pr_opened_example :: "item list" where
  "pr_opened_example =
     [\<lparr>created_at = Some ''2024-01-01T10:00:00Z'', closed_at = None, merged_at = None,
        pr_merged_at = None, number = Some 1\<rparr>,
      \<lparr>created_at = Some ''2024-01-02T09:00:00Z'', closed_at = None, merged_at = None,
        pr_merged_at = None, number = Some 2\<rparr>,
      \<lparr>created_at = Some ''2024-01-08T10:00:00Z'', closed_at = None, merged_at = None,
        pr_merged_at = None, number = Some 3\<rparr>]"


text \<open>
  Commits of the week of Monday 2024-01-01: one by the login \<^verbatim>\<open>alice\<close>; one without a login
  and with the e-mail address \<^verbatim>\<open>alice@example.com\<close>; one without a login whose e-mail text
  is \<^verbatim>\<open>alice\<close>; one with neither; and one whose date is not a timestamp.
\<close>

definition commit_login_alice :: commit where
  "commit_login_alice =
     \<lparr>author_date = Some ''2024-01-02T09:00:00Z'', author_login = Some ''alice'',
      author_email = Some ''alice@users.noreply.github.com''\<rparr>"

definition commit_email_alice :: commit where
  "commit_email_alice =
     \<lparr>author_date = Some ''2024-01-03T10:00:00Z'', author_login = None,
      author_email = Some ''alice@example.com''\<rparr>"

definition commit_email_bare :: commit where
  "commit_email_bare =
     \<lparr>author_date = Some ''2024-01-04T11:00:00Z'', author_login = None,
      author_email = Some ''alice''\<rparr>"

definition commit_anonymous :: commit where
  "commit_anonymous =
     \<lparr>author_date = Some ''2024-01-05T12:00:00Z'', author_login = None, author_email = None\<rparr>"





text \<open>
  Servers.  \<open>srv_limited\<close> answers every request with the status 403; \<open>srv_limited_twice\<close>
  does so twice and then sends a page of one item; \<open>srv_full\<close> answers every request with a
  page of 100 items; \<open>srv_two_pages\<close> sends a page of 100 items and then a page of three.
\<close>

definition example_item :: item where
  "example_item =
     \<lparr>created_at = Some ''2024-01-02T09:00:00Z'', closed_at = None, merged_at = None,
      pr_merged_at = None, number = Some 2\<rparr>"

definition response_ok :: "item list \<Rightarrow> response" where
  "response_ok its =
     \<lparr>status_code = 200, resp_text = ''{\"items\": [...]}'',
      json_body = Some (Json ''{'items': [...]}'' its None)\<rparr>"

definition response_limited :: response where
  "response_limited =
     \<lparr>status_code = 403, resp_text = ''API rate limit exceeded'', json_body = None\<rparr>"

definition srv_limited :: server where
  "srv_limited n req = response_limited"

definition srv_limited_twice :: server where
  "srv_limited_twice n req = (if n < 2 then response_limited else response_ok [example_item])"



text \<open>
  A server that answers the first request with the three pull requests of the example and
  every later request with the status 500; and arguments of the two scripts.
\<close>

definition response_broken :: response where
  "response_broken =
     \<lparr>status_code = 500, resp_text = ''Internal Server Error'', json_body = None\<rparr>"

definition srv_breaks :: server where
  "srv_breaks n req = (if n = 0 then response_ok pr_opened_example else response_broken)"

definition srv_small :: server where
  "srv_small n req = response_ok pr_opened_example"

definition example_prs_args :: prs_args where
  "example_prs_args =
     \<lparr>a_owner = ''valkey-io'', a_repo = ''valkey'', a_metric = ''opened'', a_bucket = ''weekly'',
      a_out = ''prs_opened_weekly.csv'', a_max_pages = 10, a_pause = 1 / 5, a_chunk_days = 14\<rparr>"

definition example_trends_args :: trends_args where
  "example_trends_args =
     \<lparr>t_owner = ''valkey-io'', t_repo = ''valkey'', t_out_dir = ''.'', t_chunk_days = 30,
      t_max_pages = 10, t_pause = 1 / 2\<rparr>"

text \<open>What a run did: how it ended, the file at a path afterwards, and its log.\<close>

definition outcome :: "string \<Rightarrow> ((py_error + unit) \<times> filesystem \<times> event list) option
    \<Rightarrow> ((py_error + unit) \<times> csv option \<times> event list) option" where
  "outcome path run = map_option (\<lambda>(res, fs, evs). (res, fs path, evs)) run"

text \<open>A stand-in for \<^verbatim>\<open>slugify_label\<close> on labels that are slugs already.\<close>

definition slug_example :: "string \<Rightarrow> string" where
  "slug_example label = label"
section \<open>Properties of the chunk planner\<close>

subsection \<open>Date arithmetic and single generator steps\<close>

lemma timedelta_eq: "\<bar>k\<bar> \<le> 999999999 \<Longrightarrow> timedelta k = Inr k"
  by (simp add: timedelta_def)

lemma date_add_eq: "MINORD \<le> d + k \<Longrightarrow> d + k \<le> MAXORD \<Longrightarrow> date_add d k = Inr (d + k)"
  by (simp add: date_add_def)

lemma date_add_Inr: "date_add d k = Inr t \<longleftrightarrow> t = d + k \<and> MINORD \<le> d + k \<and> d + k \<le> MAXORD"
  by (auto simp: date_add_def)

lemma date_add_Inl: "date_add d k = Inl e \<longleftrightarrow> e = OverflowError \<and> \<not> (MINORD \<le> d + k \<and> d + k \<le> MAXORD)"
  by (auto simp: date_add_def)

lemma timedelta_Inr: "timedelta k = Inr t \<longleftrightarrow> t = k \<and> \<bar>k\<bar> \<le> 999999999"
  by (auto simp: timedelta_def)

lemma timedelta_Inl: "timedelta k = Inl e \<longleftrightarrow> e = OverflowError \<and> \<not> \<bar>k\<bar> \<le> 999999999"
  by (auto simp: timedelta_def)

lemma chunks_test_Yield:
  "chunks_test s end_d c = Yield ch \<longleftrightarrow>
     s \<le> end_d \<and> \<bar>c - 1\<bar> \<le> 999999999 \<and> MINORD \<le> s + (c - 1) \<and> s + (c - 1) \<le> MAXORD \<and>
     ch = (s, min (s + (c - 1)) end_d)"
  by (auto simp: chunks_test_def timedelta_Inr date_add_Inr timedelta_Inl date_add_Inl split: sum.splits)

lemma chunks_test_Stop: "chunks_test s end_d c = Stop \<longleftrightarrow> end_d < s"
  by (auto simp: chunks_test_def split: sum.splits)

lemma chunks_test_Raise:
  "chunks_test s end_d c = Raise err \<longleftrightarrow>
     s \<le> end_d \<and> err = OverflowError \<and>
     \<not> (\<bar>c - 1\<bar> \<le> 999999999 \<and> MINORD \<le> s + (c - 1) \<and> s + (c - 1) \<le> MAXORD)"
  by (auto simp: chunks_test_def timedelta_Inr date_add_Inr timedelta_Inl date_add_Inl split: sum.splits)

lemma chunks_resume_eq:
  "MINORD \<le> snd ch + 1 \<Longrightarrow> snd ch + 1 \<le> MAXORD \<Longrightarrow>
   chunks_resume ch end_d c = chunks_test (snd ch + 1) end_d c"
  by (simp add: chunks_resume_def date_add_def)

subsection \<open>The chunks that a run yields\<close>

text \<open>
  Whatever a run with \<open>chunk_days \<ge> 1\<close> has yielded, and however it ends, its chunks have the
  planned shape and cover an initial part of the window without gap or overlap.
\<close>

lemma chunks_from_shape:
  assumes "1 \<le> c"
  shows "chunks_from n (chunks_test s end_d c) end_d c = (cs, r) \<Longrightarrow>
     list_all (\<lambda>ch. snd ch = min end_d (fst ch + c - 1) \<and> fst ch \<le> snd ch
            \<and> snd ch - fst ch + 1 \<le> c \<and> s \<le> fst ch \<and> snd ch \<le> end_d) cs
     \<and> successively (\<lambda>a b. fst b = snd a + 1) cs
     \<and> sorted_wrt (\<lambda>a b. snd a < fst b) cs
     \<and> (cs \<noteq> [] \<longrightarrow> fst (hd cs) = s \<and> concat (map chunk_dates cs) = [s..snd (last cs)])"
proof (induction n arbitrary: s cs r)
  case 0
  then have "cs = []" by (cases "chunks_test s end_d c") auto
  then show ?case by simp
next
  case (Suc n)
  show ?case
  proof (cases "chunks_test s end_d c")
    case Stop
    with Suc.prems have "cs = []" by simp
    then show ?thesis by simp
  next
    case (Raise err)
    with Suc.prems have "cs = []" by simp
    then show ?thesis by simp
  next
    case (Yield ch)
    let ?e = "min (s + (c - 1)) end_d"
    from Yield have se: "s \<le> end_d" and ch: "ch = (s, ?e)" by (simp_all add: chunks_test_Yield)
    from assms se have e: "s \<le> ?e" "?e \<le> end_d" "?e - s + 1 \<le> c" by auto
    have sc: "snd ch = ?e" "fst ch = s" by (simp_all add: ch)
    have hd_ok: "snd ch = min end_d (fst ch + c - 1) \<and> fst ch \<le> snd ch
            \<and> snd ch - fst ch + 1 \<le> c \<and> s \<le> fst ch \<and> snd ch \<le> end_d"
      unfolding sc using e by linarith
    obtain cs' r' where run: "chunks_from n (chunks_resume ch end_d c) end_d c = (cs', r')"
      by (cases "chunks_from n (chunks_resume ch end_d c) end_d c")
    with Suc.prems Yield have cs: "cs = ch # cs'" by auto
    show ?thesis
    proof (cases "date_add (snd ch) 1")
      case (Inl err)
      then have "chunks_resume ch end_d c = Raise err" by (simp add: chunks_resume_def)
      with run have "cs' = []" by simp
      with cs hd_ok show ?thesis by (simp add: chunk_dates_def sc)
    next
      case (Inr s')
      then have s': "s' = snd ch + 1" by (simp add: date_add_Inr)
      from Inr have "chunks_resume ch end_d c = chunks_test (snd ch + 1) end_d c"
        by (simp add: chunks_resume_def s')
      with run have run': "chunks_from n (chunks_test (snd ch + 1) end_d c) end_d c = (cs', r')" by simp
      note IH = Suc.IH[OF run']
      note I2 = IH[THEN conjunct1, unfolded list_all_iff]
      note I3 = IH[THEN conjunct2, THEN conjunct1]
      note I4 = IH[THEN conjunct2, THEN conjunct2, THEN conjunct1]
      note I5 = IH[THEN conjunct2, THEN conjunct2, THEN conjunct2]
      have all: "\<forall>x\<in>set cs'. snd x = min end_d (fst x + c - 1) \<and> fst x \<le> snd x
            \<and> snd x - fst x + 1 \<le> c \<and> s \<le> fst x \<and> snd x \<le> end_d"
      proof (intro ballI)
        fix x assume "x \<in> set cs'"
        with I2
        have "snd x = min end_d (fst x + c - 1) \<and> fst x \<le> snd x
            \<and> snd x - fst x + 1 \<le> c \<and> snd ch + 1 \<le> fst x \<and> snd x \<le> end_d"
          by (rule bspec)
        then show "snd x = min end_d (fst x + c - 1) \<and> fst x \<le> snd x
            \<and> snd x - fst x + 1 \<le> c \<and> s \<le> fst x \<and> snd x \<le> end_d"
          using e(1) sc(1) by linarith
      qed
      have lt: "\<forall>b\<in>set cs'. snd ch < fst b" using I2 by auto
      have c2: "list_all (\<lambda>ch. snd ch = min end_d (fst ch + c - 1) \<and> fst ch \<le> snd ch
            \<and> snd ch - fst ch + 1 \<le> c \<and> s \<le> fst ch \<and> snd ch \<le> end_d) cs"
        unfolding list_all_iff cs
      proof (intro ballI)
        fix x assume "x \<in> set (ch # cs')"
        then consider "x = ch" | "x \<in> set cs'" by auto
        then show "snd x = min end_d (fst x + c - 1) \<and> fst x \<le> snd x
            \<and> snd x - fst x + 1 \<le> c \<and> s \<le> fst x \<and> snd x \<le> end_d"
        proof cases
          case 1
          with hd_ok show ?thesis by blast
        next
          case 2
          with all show ?thesis by blast
        qed
      qed
      have c3: "successively (\<lambda>a b. fst b = snd a + 1) cs"
      proof (cases cs')
        case Nil
        then show ?thesis by (simp add: cs)
      next
        case (Cons x xs)
        with I5 have "fst x = snd ch + 1" by simp
        with I3 Cons show ?thesis by (simp add: cs)
      qed
      have c4: "sorted_wrt (\<lambda>a b. snd a < fst b) cs"
        using I4 lt by (simp add: cs)
      have c5: "concat (map chunk_dates cs) = [s..snd (last cs)]"
      proof (cases "cs' = []")
        case True
        then show ?thesis by (simp add: cs chunk_dates_def sc)
      next
        case False
        with I5 have cc: "concat (map chunk_dates cs') = [snd ch + 1..snd (last cs')]" by simp
        from False all have "snd ch \<le> snd (last cs')"
          using lt last_in_set[OF False] by (metis (no_types, lifting) less_le_not_le order_trans)
        then have "[s..snd ch] @ [snd ch + 1..snd (last cs')] = [s..snd (last cs')]"
          using upto_split2[of s "snd ch" "snd (last cs')"] e(1) sc by simp
        with cc False show ?thesis by (simp add: cs chunk_dates_def sc[symmetric])
      qed
      from c2 c3 c4 c5 show ?thesis by (simp add: cs sc)
    qed
  qed
qed

subsection \<open>The two scripts' planners agree on a non-empty window\<close>

lemma chunks_test_prs_eq:
  "\<bar>c - 1\<bar> \<le> 999999999 \<Longrightarrow> chunks_test_prs s end_d (c - 1) = chunks_test s end_d c"
  by (simp add: chunks_test_prs_def chunks_test_def timedelta_def min.commute split: sum.splits)

lemma chunks_resume_prs_eq:
  "\<bar>c - 1\<bar> \<le> 999999999 \<Longrightarrow> chunks_resume_prs ch end_d (c - 1) = chunks_resume ch end_d c"
  by (simp add: chunks_resume_prs_def chunks_resume_def chunks_test_prs_eq split: sum.splits)

lemma chunks_from_prs_eq:
  "\<bar>c - 1\<bar> \<le> 999999999 \<Longrightarrow> chunks_from_prs n g end_d (c - 1) = chunks_from n g end_d c"
proof (induction n arbitrary: g)
  case 0
  then show ?case by (cases g) simp_all
next
  case (Suc n)
  then show ?case by (cases g) (simp_all add: chunks_resume_prs_eq)
qed

lemma daterange_chunks_prs_eq:
  assumes "start \<le> end_d"
  shows "daterange_chunks_prs n start end_d c = daterange_chunks n start end_d c"
proof (cases "\<bar>c - 1\<bar> \<le> 999999999")
  case True
  then show ?thesis
    by (simp add: daterange_chunks_prs_def daterange_chunks_def timedelta_def
        chunks_from_prs_eq chunks_test_prs_eq)
next
  case False
  with assms have "chunks_test start end_d c = Raise OverflowError"
    by (simp add: chunks_test_Raise)
  with False show ?thesis
    by (simp add: daterange_chunks_prs_def daterange_chunks_def timedelta_def)
qed

subsection \<open>Termination\<close>

text \<open>
  How a run with \<open>chunk_days \<ge> 1\<close> ends.  The last chunk starts at
  \<open>end - (end - s) mod chunk_days\<close>; the run ends with \<^verbatim>\<open>StopIteration\<close> when the end of that
  chunk before \<^verbatim>\<open>min\<close> is taken, and the day after \<open>end\<close>, are dates, and with
  \<^verbatim>\<open>OverflowError\<close> otherwise.
\<close>

lemma chunks_from_result:
  assumes "1 \<le> c" and "end_d \<le> MAXORD"
  shows "MINORD \<le> s \<Longrightarrow> s \<le> end_d \<Longrightarrow>
     \<exists>n cs. chunks_from n (chunks_test s end_d c) end_d c
         = (cs, Some (if end_d < MAXORD \<and> end_d - (end_d - s) mod c + c - 1 \<le> MAXORD
                      then Inr () else Inl OverflowError))
       \<and> (end_d - (end_d - s) mod c + c - 1 \<le> MAXORD \<longrightarrow> cs \<noteq> [] \<and> snd (last cs) = end_d)"
proof (induction "nat (end_d + 1 - s)" arbitrary: s rule: less_induct)
  case less
  let ?L = "\<lambda>s. end_d - (end_d - s) mod c"
  let ?res = "\<lambda>s. if end_d < MAXORD \<and> ?L s + c - 1 \<le> MAXORD then Inr () else Inl OverflowError"
  from assms(1) have cpos: "0 < c" by simp
  have m0: "0 \<le> (end_d - s) mod c" using cpos by simp
  have mle: "(end_d - s) mod c \<le> end_d - s"
    using less.prems(2) cpos by (intro zmod_le_nonneg_dividend) simp
  show ?case
  proof (cases "s + (c - 1) \<le> MAXORD")
    case False
    with less.prems have "chunks_test s end_d c = Raise OverflowError"
      by (simp add: chunks_test_Raise)
    then have "chunks_from 0 (chunks_test s end_d c) end_d c = ([], Some (Inl OverflowError))" by simp
    moreover from False mle have "\<not> ?L s + c - 1 \<le> MAXORD" by linarith
    ultimately show ?thesis by (intro exI[of _ 0] exI[of _ "[]"]) simp
  next
    case True
    let ?e = "min (s + (c - 1)) end_d"
    from True assms less.prems have "\<bar>c - 1\<bar> \<le> 999999999"
      by (simp add: MINORD_def MAXORD_def)
    with True assms less.prems have y: "chunks_test s end_d c = Yield (s, ?e)"
      by (simp add: chunks_test_Yield)
    show ?thesis
    proof (cases "end_d \<le> s + (c - 1)")
      case last: True
      then have e: "?e = end_d" by simp
      from last less.prems(2) have "(end_d - s) mod c = end_d - s"
        by (intro mod_pos_pos_trivial) auto
      then have L: "?L s = s" by simp
      show ?thesis
      proof (cases "end_d < MAXORD")
        case lt: True
        with less.prems have "chunks_resume (s, ?e) end_d c = chunks_test (end_d + 1) end_d c"
          using chunks_resume_eq[of "(s, ?e)" end_d c] by (simp add: e MINORD_def)
        then have "chunks_resume (s, ?e) end_d c = Stop" by (simp add: chunks_test_Stop)
        with y have "chunks_from (Suc 0) (chunks_test s end_d c) end_d c = ([(s, end_d)], Some (Inr ()))"
          by (simp add: e)
        moreover have "?res s = Inr ()" using lt True L by simp
        ultimately show ?thesis
          by (intro exI[of _ "Suc 0"] exI[of _ "[(s, end_d)]"]) simp
      next
        case ge: False
        with assms(2) have "date_add end_d 1 = Inl OverflowError" by (simp add: date_add_def)
        then have "chunks_resume (s, ?e) end_d c = Raise OverflowError"
          by (simp add: chunks_resume_def e)
        with y have "chunks_from (Suc 0) (chunks_test s end_d c) end_d c = ([(s, end_d)], Some (Inl OverflowError))"
          by (simp add: e)
        moreover have "?res s = Inl OverflowError" using ge by simp
        ultimately show ?thesis
          by (intro exI[of _ "Suc 0"] exI[of _ "[(s, end_d)]"]) simp
      qed
    next
      case more: False
      then have e: "?e = s + (c - 1)" by simp
      let ?s' = "s + c"
      from more have s'le: "?s' \<le> end_d" by simp
      from more assms less.prems have "chunks_resume (s, ?e) end_d c = chunks_test ?s' end_d c"
        using chunks_resume_eq[of "(s, ?e)" end_d c] by (simp add: e MINORD_def)
      with y have step: "\<And>n. chunks_from (Suc n) (chunks_test s end_d c) end_d c
          = (case chunks_from n (chunks_test ?s' end_d c) end_d c of (cs, r) \<Rightarrow> ((s, ?e) # cs, r))"
        by simp
      have "end_d - ?s' = end_d - s - c" by simp
      then have "(end_d - ?s') mod c = (end_d - s) mod c" by (simp only: minus_mod_self2)
      then have L: "?L ?s' = ?L s" by simp
      have "nat (end_d + 1 - ?s') < nat (end_d + 1 - s)" using cpos less.prems(2) by simp
      moreover have "MINORD \<le> ?s'" using less.prems(1) cpos by simp
      ultimately obtain n cs where run: "chunks_from n (chunks_test ?s' end_d c) end_d c = (cs, Some (?res ?s'))"
        and full: "?L ?s' + c - 1 \<le> MAXORD \<longrightarrow> cs \<noteq> [] \<and> snd (last cs) = end_d"
        using less.hyps[of ?s'] s'le by blast
      from step[of n] run have "chunks_from (Suc n) (chunks_test s end_d c) end_d c = ((s, ?e) # cs, Some (?res s))"
        by (simp only: L prod.case)
      moreover from full have "?L s + c - 1 \<le> MAXORD \<longrightarrow> (s, ?e) # cs \<noteq> [] \<and> snd (last ((s, ?e) # cs)) = end_d"
        by (simp only: L) simp
      ultimately show ?thesis by blast
    qed
  qed
qed

text \<open>With \<open>chunk_days \<ge> 1\<close> every run ends, normally or with an exception.\<close>
lemma chunks_from_ends:
  assumes "1 \<le> c"
  shows "\<exists>n cs r. chunks_from n (chunks_test s end_d c) end_d c = (cs, Some r) \<and> int (length cs) \<le> max 0 (end_d - s + 1)"
proof (induction "nat (end_d + 1 - s)" arbitrary: s rule: less_induct)
  case less
  show ?case
  proof (cases "chunks_test s end_d c")
    case Stop
    then have "chunks_from 0 (chunks_test s end_d c) end_d c = ([], Some (Inr ()))" by simp
    then show ?thesis by force
  next
    case (Raise err)
    then have "chunks_from 0 (chunks_test s end_d c) end_d c = ([], Some (Inl err))" by simp
    then show ?thesis by force
  next
    case (Yield ch)
    let ?e = "min (s + (c - 1)) end_d"
    from Yield have se: "s \<le> end_d" and ch: "ch = (s, ?e)" by (simp_all add: chunks_test_Yield)
    show ?thesis
    proof (cases "date_add ?e 1")
      case (Inl err)
      then have "chunks_resume ch end_d c = Raise err" by (simp add: chunks_resume_def ch)
      with Yield have "chunks_from (Suc 0) (chunks_test s end_d c) end_d c = ([ch], Some (Inl err))"
        by simp
      moreover have "int (length [ch]) \<le> max 0 (end_d - s + 1)" using se by simp
      ultimately show ?thesis by blast
    next
      case (Inr s')
      then have s': "s' = ?e + 1" by (simp add: date_add_Inr)
      from Inr have r: "chunks_resume ch end_d c = chunks_test s' end_d c"
        by (simp add: chunks_resume_def ch)
      have "nat (end_d + 1 - s') < nat (end_d + 1 - s)" using se assms s' by auto
      then obtain n cs r' where n: "chunks_from n (chunks_test s' end_d c) end_d c = (cs, Some r')"
        and len: "int (length cs) \<le> max 0 (end_d - s' + 1)"
        using less.hyps by blast
      from n Yield r have "chunks_from (Suc n) (chunks_test s end_d c) end_d c = (ch # cs, Some r')"
        by simp
      moreover have "int (length (ch # cs)) \<le> max 0 (end_d - s + 1)"
        using len se assms s' by auto
      ultimately show ?thesis by blast
    qed
  qed
qed

text \<open>With \<open>chunk_days = 0\<close> the loop variable stays where it is.\<close>
lemma chunks_from_zero:
  assumes "MINORD < s" "s \<le> end_d" "s \<le> MAXORD"
  shows "chunks_from n (chunks_test s end_d 0) end_d 0 = (replicate n (s, s - 1), None)"
proof -
  from assms have y: "chunks_test s end_d 0 = Yield (s, s - 1)"
    by (simp add: chunks_test_Yield MINORD_def)
  from assms have "chunks_resume (s, s - 1) end_d 0 = chunks_test s end_d 0"
    using chunks_resume_eq[of "(s, s - 1)" end_d 0] by (simp add: MINORD_def)
  with y have r: "chunks_resume (s, s - 1) end_d 0 = Yield (s, s - 1)" by simp
  have "chunks_from n (Yield (s, s - 1)) end_d 0 = (replicate n (s, s - 1), None)"
    by (induction n) (simp_all add: r)
  with y show ?thesis by simp
qed

text \<open>With \<open>chunk_days \<le> 0\<close> the loop test never fails.\<close>
lemma chunks_from_nonpos:
  assumes "c \<le> 0"
  shows "s \<le> end_d \<Longrightarrow> chunks_from n (chunks_test s end_d c) end_d c = (cs, r) \<Longrightarrow>
     r \<noteq> Some (Inr ()) \<and> list_all (\<lambda>ch. fst ch \<le> end_d) cs"
proof (induction n arbitrary: s cs r)
  case 0
  then show ?case by (cases "chunks_test s end_d c") (auto simp: chunks_test_Stop)
next
  case (Suc n)
  show ?case
  proof (cases "chunks_test s end_d c")
    case Stop
    with Suc.prems show ?thesis by (simp add: chunks_test_Stop)
  next
    case (Raise err)
    with Suc.prems show ?thesis by auto
  next
    case (Yield ch)
    let ?e = "min (s + (c - 1)) end_d"
    from Yield have ch: "ch = (s, ?e)" by (simp add: chunks_test_Yield)
    show ?thesis
    proof (cases "date_add ?e 1")
      case (Inl err)
      then have "chunks_resume ch end_d c = Raise err" by (simp add: chunks_resume_def ch)
      with Yield Suc.prems ch show ?thesis by auto
    next
      case (Inr s')
      then have s': "s' = ?e + 1" by (simp add: date_add_Inr)
      from Inr have rs: "chunks_resume ch end_d c = chunks_test s' end_d c"
        by (simp add: chunks_resume_def ch)
      obtain cs' r' where n: "chunks_from n (chunks_test s' end_d c) end_d c = (cs', r')"
        by (cases "chunks_from n (chunks_test s' end_d c) end_d c")
      have "s' \<le> end_d" using s' assms Suc.prems(1) by auto
      from Suc.IH[OF this n] have "r' \<noteq> Some (Inr ())" "list_all (\<lambda>ch. fst ch \<le> end_d) cs'" by auto
      moreover from n Yield rs Suc.prems(2) have "cs = ch # cs'" "r = r'" by auto
      ultimately show ?thesis using Suc.prems(1) ch by simp
    qed
  qed
qed

text \<open>With \<open>chunk_days < 0\<close> the loop variable walks back to the first representable date.\<close>
lemma chunks_from_neg:
  assumes "c < 0"
  shows "s \<le> end_d \<Longrightarrow> \<exists>n cs. chunks_from n (chunks_test s end_d c) end_d c = (cs, Some (Inl OverflowError))"
proof (induction "nat (s - MINORD + 1)" arbitrary: s rule: less_induct)
  case less
  show ?case
  proof (cases "chunks_test s end_d c")
    case Stop
    with less.prems show ?thesis by (simp add: chunks_test_Stop)
  next
    case (Raise err)
    then have "err = OverflowError" by (simp add: chunks_test_Raise)
    with Raise have "chunks_from 0 (chunks_test s end_d c) end_d c = ([], Some (Inl OverflowError))" by simp
    then show ?thesis by blast
  next
    case (Yield ch)
    let ?e = "min (s + (c - 1)) end_d"
    from Yield have ch: "ch = (s, ?e)" and lo: "MINORD \<le> s + (c - 1)" by (simp_all add: chunks_test_Yield)
    show ?thesis
    proof (cases "date_add ?e 1")
      case (Inl err)
      moreover from Inl have "err = OverflowError" by (simp add: date_add_Inl)
      ultimately have "chunks_resume ch end_d c = Raise OverflowError" by (simp add: chunks_resume_def ch)
      with Yield have "chunks_from (Suc 0) (chunks_test s end_d c) end_d c = ([ch], Some (Inl OverflowError))"
        by simp
      then show ?thesis by blast
    next
      case (Inr s')
      then have s': "s' = ?e + 1" by (simp add: date_add_Inr)
      from Inr have rs: "chunks_resume ch end_d c = chunks_test s' end_d c"
        by (simp add: chunks_resume_def ch)
      have "s' \<le> end_d" using s' assms less.prems by auto
      moreover have "nat (s' - MINORD + 1) < nat (s - MINORD + 1)" using s' assms lo less.prems by auto
      ultimately obtain n cs where "chunks_from n (chunks_test s' end_d c) end_d c = (cs, Some (Inl OverflowError))"
        using less.hyps by blast
      with Yield rs have "chunks_from (Suc n) (chunks_test s end_d c) end_d c = (ch # cs, Some (Inl OverflowError))"
        by simp
      then show ?thesis by blast
    qed
  qed
qed

lemma chunks_from_more_fuel:
  "chunks_from n g end_d c = (cs, Some r) \<Longrightarrow> chunks_from (n + k) g end_d c = (cs, Some r)"
proof (induction n arbitrary: g cs)
  case 0
  then show ?case by (cases g) simp_all
next
  case (Suc n)
  show ?case
  proof (cases g)
    case (Yield ch)
    obtain cs' r' where r: "chunks_from n (chunks_resume ch end_d c) end_d c = (cs', r')"
      by (cases "chunks_from n (chunks_resume ch end_d c) end_d c")
    with Suc.prems Yield have "cs = ch # cs'" "r' = Some r" by auto
    with Suc.IH[of "chunks_resume ch end_d c" cs'] r Yield show ?thesis by simp
  qed (use Suc.prems in simp_all)
qed

lemma chunks_from_enough_fuel:
  assumes "chunks_from n g end_d c = (cs, Some r)" and "n \<le> m"
  shows "chunks_from m g end_d c = (cs, Some r)"
  using chunks_from_more_fuel[OF assms(1), of "m - n"] assms(2) by simp

subsection \<open>Claim C1\<close>

text \<open>
  C1 (as amended).  For every window \<open>start \<le> end\<close> of dates and every \<open>chunk_days \<ge> 1\<close> the
  generator of either script ends, and both yield the same chunks.  Each chunk's end is
  \<open>min end (chunk start + chunk_days - 1)\<close>, each next chunk starts the day after the previous
  chunk's end, the chunks are in ascending order without overlap, each spans between one and
  \<open>chunk_days\<close> days, the first starts at \<open>start\<close>, and the days of the chunks concatenated are
  the days from \<open>start\<close> to the end of the last chunk yielded.  The generator ends with
  \<^verbatim>\<open>StopIteration\<close> exactly when the date arithmetic stays inside Python's date range, that
  is when \<open>end\<close> is before 9999-12-31 and \<open>L + chunk_days - 1\<close> is not after 9999-12-31, where
  \<open>L = end - (end - start) mod chunk_days\<close> is the start of the last chunk; the chunks then
  partition the window and the last one ends at \<open>end\<close>.  Otherwise the generator ends with
  \<^verbatim>\<open>OverflowError\<close>; when only \<open>end\<close> = 9999-12-31 stands in the way, the chunks yielded
  before the error still partition the whole window.
\<close>

theorem daterange_chunks_partition:
  assumes "valid_date start" and "valid_date end_d" and "start \<le> end_d" and "1 \<le> chunk_days"
  shows "\<exists>n cs r.
      (\<forall>m\<ge>n. daterange_chunks m start end_d chunk_days = (cs, Some r)
            \<and> daterange_chunks_prs m start end_d chunk_days = (cs, Some r))
    \<and> r = (if end_d < MAXORD \<and> end_d - (end_d - start) mod chunk_days + chunk_days - 1 \<le> MAXORD
           then Inr () else Inl OverflowError)
    \<and> (r = Inr () \<or> end_d - (end_d - start) mod chunk_days + chunk_days - 1 \<le> MAXORD
         \<longrightarrow> cs \<noteq> [] \<and> snd (last cs) = end_d \<and> concat (map chunk_dates cs) = [start..end_d])
    \<and> (cs \<noteq> [] \<longrightarrow> fst (hd cs) = start \<and> snd (last cs) \<le> end_d
          \<and> concat (map chunk_dates cs) = [start..snd (last cs)])
    \<and> list_all (\<lambda>ch. snd ch = min end_d (fst ch + chunk_days - 1)) cs
    \<and> successively (\<lambda>a b. fst b = snd a + 1) cs
    \<and> sorted_wrt (\<lambda>a b. snd a < fst b) cs
    \<and> list_all (\<lambda>ch. fst ch \<le> snd ch \<and> snd ch - fst ch + 1 \<le> chunk_days) cs"
proof -
  let ?ok = "end_d < MAXORD \<and> end_d - (end_d - start) mod chunk_days + chunk_days - 1 \<le> MAXORD"
  let ?r = "if ?ok then Inr () else Inl OverflowError :: py_error + unit"
  from assms(1,2) have "MINORD \<le> start" "end_d \<le> MAXORD" by (simp_all add: valid_date_def)
  from chunks_from_result[OF assms(4) this(2) this(1) assms(3)]
  obtain n cs where run: "chunks_from n (chunks_test start end_d chunk_days) end_d chunk_days = (cs, Some ?r)"
    and full: "end_d - (end_d - start) mod chunk_days + chunk_days - 1 \<le> MAXORD \<longrightarrow> cs \<noteq> [] \<and> snd (last cs) = end_d"
    by blast
  note P = chunks_from_shape[OF assms(4) run]
  have fuel: "\<forall>m\<ge>n. daterange_chunks m start end_d chunk_days = (cs, Some ?r)
            \<and> daterange_chunks_prs m start end_d chunk_days = (cs, Some ?r)"
    using chunks_from_enough_fuel[OF run] daterange_chunks_prs_eq[OF assms(3)]
    by (simp add: daterange_chunks_def)
  have all: "\<forall>ch\<in>set cs. snd ch = min end_d (fst ch + chunk_days - 1) \<and> fst ch \<le> snd ch
            \<and> snd ch - fst ch + 1 \<le> chunk_days \<and> start \<le> fst ch \<and> snd ch \<le> end_d"
    using P[THEN conjunct1] unfolding list_all_iff .
  have ends: "list_all (\<lambda>ch. snd ch = min end_d (fst ch + chunk_days - 1)) cs"
    and span: "list_all (\<lambda>ch. fst ch \<le> snd ch \<and> snd ch - fst ch + 1 \<le> chunk_days) cs"
    using all unfolding list_all_iff by blast+
  have succ: "successively (\<lambda>a b. fst b = snd a + 1) cs" and asc: "sorted_wrt (\<lambda>a b. snd a < fst b) cs"
    using P by blast+
  have pre: "cs \<noteq> [] \<longrightarrow> fst (hd cs) = start \<and> snd (last cs) \<le> end_d
          \<and> concat (map chunk_dates cs) = [start..snd (last cs)]"
  proof
    assume ne: "cs \<noteq> []"
    with P have "fst (hd cs) = start" "concat (map chunk_dates cs) = [start..snd (last cs)]" by blast+
    moreover from all last_in_set[OF ne] have "snd (last cs) \<le> end_d" by blast
    ultimately show "fst (hd cs) = start \<and> snd (last cs) \<le> end_d
          \<and> concat (map chunk_dates cs) = [start..snd (last cs)]" by blast
  qed
  have whole: "?r = Inr () \<or> end_d - (end_d - start) mod chunk_days + chunk_days - 1 \<le> MAXORD
         \<longrightarrow> cs \<noteq> [] \<and> snd (last cs) = end_d \<and> concat (map chunk_dates cs) = [start..end_d]"
  proof
    assume "?r = Inr () \<or> end_d - (end_d - start) mod chunk_days + chunk_days - 1 \<le> MAXORD"
    then have "end_d - (end_d - start) mod chunk_days + chunk_days - 1 \<le> MAXORD"
      by (auto split: if_splits)
    with full have "cs \<noteq> []" "snd (last cs) = end_d" by blast+
    with pre show "cs \<noteq> [] \<and> snd (last cs) = end_d \<and> concat (map chunk_dates cs) = [start..end_d]"
      by simp
  qed
  show ?thesis
    by (intro exI[of _ n] exI[of _ cs] exI[of _ ?r] conjI fuel refl whole pre ends succ asc span)
qed

text \<open>
  The window 2024-01-01 .. 2024-01-21 (ordinals 738886 .. 738906) in chunks of 7 days, and
  in one chunk of 2913174 days, the largest \<open>chunk_days\<close> that the window admits.
\<close>

theorem daterange_chunks_partition_witness:
  "valid_date 738886 \<and> valid_date 738906 \<and> (738886::int) \<le> 738906 \<and> (1::int) \<le> 7
   \<and> (1::int) \<le> 2913174
   \<and> (\<exists>n cs.
      (\<forall>m\<ge>n. daterange_chunks m 738886 738906 7 = (cs, Some (Inr ()))
            \<and> daterange_chunks_prs m 738886 738906 7 = (cs, Some (Inr ())))
    \<and> cs \<noteq> [] \<and> fst (hd cs) = 738886 \<and> snd (last cs) = 738906
    \<and> list_all (\<lambda>ch. snd ch = min 738906 (fst ch + 7 - 1)) cs
    \<and> successively (\<lambda>a b. fst b = snd a + 1) cs
    \<and> sorted_wrt (\<lambda>a b. snd a < fst b) cs
    \<and> concat (map chunk_dates cs) = [738886..738906]
    \<and> list_all (\<lambda>ch. fst ch \<le> snd ch \<and> snd ch - fst ch + 1 \<le> 7) cs)
   \<and> (\<exists>n cs.
      (\<forall>m\<ge>n. daterange_chunks m 738886 738906 2913174 = (cs, Some (Inr ()))
            \<and> daterange_chunks_prs m 738886 738906 2913174 = (cs, Some (Inr ())))
    \<and> cs \<noteq> [] \<and> fst (hd cs) = 738886 \<and> snd (last cs) = 738906
    \<and> concat (map chunk_dates cs) = [738886..738906])"
proof -
  have h: "valid_date 738886" "valid_date 738906" "(738886::int) \<le> 738906" "(1::int) \<le> 7"
    and h': "(1::int) \<le> 2913174"
    by (simp_all add: valid_date_def MINORD_def MAXORD_def)
  have ok: "738906 < MAXORD \<and> 738906 - (738906 - 738886) mod 7 + 7 - 1 \<le> MAXORD"
    and ok': "738906 < MAXORD \<and> 738906 - (738906 - 738886) mod 2913174 + 2913174 - 1 \<le> MAXORD"
    by (simp_all add: MAXORD_def)
  from daterange_chunks_partition[OF h]
  obtain n cs r where
    "\<forall>m\<ge>n. daterange_chunks m 738886 738906 7 = (cs, Some r)
            \<and> daterange_chunks_prs m 738886 738906 7 = (cs, Some r)"
    "r = (if 738906 < MAXORD \<and> 738906 - (738906 - 738886) mod 7 + 7 - 1 \<le> MAXORD
           then Inr () else Inl OverflowError)"
    "r = Inr () \<or> 738906 - (738906 - 738886) mod 7 + 7 - 1 \<le> MAXORD
         \<longrightarrow> cs \<noteq> [] \<and> snd (last cs) = 738906 \<and> concat (map chunk_dates cs) = [738886..738906]"
    "cs \<noteq> [] \<longrightarrow> fst (hd cs) = 738886 \<and> snd (last cs) \<le> 738906
          \<and> concat (map chunk_dates cs) = [738886..snd (last cs)]"
    "list_all (\<lambda>ch. snd ch = min 738906 (fst ch + 7 - 1)) cs"
    "successively (\<lambda>a b. fst b = snd a + 1) cs"
    "sorted_wrt (\<lambda>a b. snd a < fst b) cs"
    "list_all (\<lambda>ch. fst ch \<le> snd ch \<and> snd ch - fst ch + 1 \<le> 7) cs"
    by blast
  moreover from this(2) ok have "r = Inr ()" by simp
  ultimately have a: "\<exists>n cs. (\<forall>m\<ge>n. daterange_chunks m 738886 738906 7 = (cs, Some (Inr ()))
            \<and> daterange_chunks_prs m 738886 738906 7 = (cs, Some (Inr ())))
    \<and> cs \<noteq> [] \<and> fst (hd cs) = 738886 \<and> snd (last cs) = 738906
    \<and> list_all (\<lambda>ch. snd ch = min 738906 (fst ch + 7 - 1)) cs
    \<and> successively (\<lambda>a b. fst b = snd a + 1) cs
    \<and> sorted_wrt (\<lambda>a b. snd a < fst b) cs
    \<and> concat (map chunk_dates cs) = [738886..738906]
    \<and> list_all (\<lambda>ch. fst ch \<le> snd ch \<and> snd ch - fst ch + 1 \<le> 7) cs" by auto
  from daterange_chunks_partition[OF h(1,2,3) h']
  obtain n' cs' r' where
    "\<forall>m\<ge>n'. daterange_chunks m 738886 738906 2913174 = (cs', Some r')
            \<and> daterange_chunks_prs m 738886 738906 2913174 = (cs', Some r')"
    "r' = (if 738906 < MAXORD \<and> 738906 - (738906 - 738886) mod 2913174 + 2913174 - 1 \<le> MAXORD
           then Inr () else Inl OverflowError)"
    "r' = Inr () \<or> 738906 - (738906 - 738886) mod 2913174 + 2913174 - 1 \<le> MAXORD
         \<longrightarrow> cs' \<noteq> [] \<and> snd (last cs') = 738906 \<and> concat (map chunk_dates cs') = [738886..738906]"
    "cs' \<noteq> [] \<longrightarrow> fst (hd cs') = 738886 \<and> snd (last cs') \<le> 738906
          \<and> concat (map chunk_dates cs') = [738886..snd (last cs')]"
    by blast
  moreover from this(2) ok' have "r' = Inr ()" by simp
  ultimately have b: "\<exists>n cs. (\<forall>m\<ge>n. daterange_chunks m 738886 738906 2913174 = (cs, Some (Inr ()))
            \<and> daterange_chunks_prs m 738886 738906 2913174 = (cs, Some (Inr ())))
    \<and> cs \<noteq> [] \<and> fst (hd cs) = 738886 \<and> snd (last cs) = 738906
    \<and> concat (map chunk_dates cs) = [738886..738906]" by auto
  from h h' a b show ?thesis by blast
qed

text \<open>The chunks of that window, computed.\<close>

lemma daterange_chunks_example:
  "daterange_chunks 3 738886 738906 7 = ([(738886, 738892), (738893, 738899), (738900, 738906)], Some (Inr ()))"
  by (simp add: daterange_chunks_def chunks_test_def chunks_resume_def timedelta_def date_add_def
      MINORD_def MAXORD_def numeral_3_eq_3)

text \<open>
  At the edge of the date range: the largest \<open>chunk_days\<close> for the window above, the next
  larger one, and a window that ends on 9999-12-31.
\<close>

lemma daterange_chunks_edge_example:
  "daterange_chunks (Suc n) 738886 738906 2913174 = ([(738886, 738906)], Some (Inr ()))"
  "daterange_chunks (Suc n) 738886 738906 2913175 = ([], Some (Inl OverflowError))"
  "daterange_chunks (Suc (Suc n)) 3652050 3652059 5 = ([(3652050, 3652054), (3652055, 3652059)], Some (Inl OverflowError))"
  by (simp_all add: daterange_chunks_def chunks_test_def chunks_resume_def timedelta_def date_add_def
      MINORD_def MAXORD_def)

text \<open>
  The claim fails as it stands: for the same window and \<open>chunk_days = 3000000\<close> the first
  \<^verbatim>\<open>s + timedelta(days=chunk_days - 1)\<close> lies after 9999-12-31, and the generator raises
  \<^verbatim>\<open>OverflowError\<close> before it yields any chunk.
\<close>

theorem daterange_chunks_overflow_counterexample:
  "valid_date 738886 \<and> valid_date 738906 \<and> (738886::int) \<le> 738906 \<and> (1::int) \<le> 3000000
   \<and> (\<forall>n. daterange_chunks n 738886 738906 3000000 = ([], Some (Inl OverflowError)))
   \<and> (\<forall>n. daterange_chunks_prs n 738886 738906 3000000 = ([], Some (Inl OverflowError)))"
  by (simp add: daterange_chunks_def daterange_chunks_prs_def chunks_test_def chunks_test_prs_def
      timedelta_def date_add_def valid_date_def MINORD_def MAXORD_def)

subsection \<open>Claim C10\<close>

text \<open>
  C10 (as amended).  For every window of dates \<open>start \<le> end\<close> the two planners behave alike, and:
  with \<open>chunk_days \<ge> 1\<close> the generator ends after at most \<open>end - start + 1\<close> chunks (with
  \<^verbatim>\<open>StopIteration\<close>, or with \<^verbatim>\<open>OverflowError\<close> when the date arithmetic leaves the date range);
  with \<open>chunk_days \<le> 0\<close> the loop variable never advances past \<open>end\<close> and the generator never
  ends with \<^verbatim>\<open>StopIteration\<close>; with \<open>chunk_days = 0\<close> (and \<open>start\<close> after 0001-01-01) it yields
  the chunk \<open>(start, start - 1)\<close> for ever; with \<open>chunk_days < 0\<close> the loop variable walks
  backwards and the generator ends with \<^verbatim>\<open>OverflowError\<close> after finitely many chunks.
\<close>

theorem daterange_chunks_termination:
  assumes "valid_date start" and "valid_date end_d" and "start \<le> end_d"
  shows "(\<forall>n. daterange_chunks_prs n start end_d chunk_days = daterange_chunks n start end_d chunk_days)
    \<and> (1 \<le> chunk_days \<longrightarrow>
         (\<exists>n cs r. (\<forall>m\<ge>n. daterange_chunks m start end_d chunk_days = (cs, Some r))
             \<and> int (length cs) \<le> end_d - start + 1))
    \<and> (chunk_days \<le> 0 \<longrightarrow>
         (\<forall>n cs r. daterange_chunks n start end_d chunk_days = (cs, r) \<longrightarrow>
             r \<noteq> Some (Inr ()) \<and> list_all (\<lambda>ch. fst ch \<le> end_d) cs))
    \<and> (chunk_days = 0 \<and> MINORD < start \<longrightarrow>
         (\<forall>n. daterange_chunks n start end_d chunk_days = (replicate n (start, start - 1), None)))
    \<and> (chunk_days < 0 \<longrightarrow>
         (\<exists>n cs. \<forall>m\<ge>n. daterange_chunks m start end_d chunk_days = (cs, Some (Inl OverflowError))))"
proof -
  have p1: "\<forall>n. daterange_chunks_prs n start end_d chunk_days = daterange_chunks n start end_d chunk_days"
    by (simp add: daterange_chunks_prs_eq[OF assms(3)])
  have p2: "1 \<le> chunk_days \<longrightarrow>
         (\<exists>n cs r. (\<forall>m\<ge>n. daterange_chunks m start end_d chunk_days = (cs, Some r))
             \<and> int (length cs) \<le> end_d - start + 1)"
  proof
    assume "1 \<le> chunk_days"
    from chunks_from_ends[OF this, of start end_d]
    obtain n cs r where run: "chunks_from n (chunks_test start end_d chunk_days) end_d chunk_days = (cs, Some r)"
      and len: "int (length cs) \<le> max 0 (end_d - start + 1)" by blast
    from chunks_from_enough_fuel[OF run]
    have "\<forall>m\<ge>n. daterange_chunks m start end_d chunk_days = (cs, Some r)"
      by (simp add: daterange_chunks_def)
    moreover from len assms(3) have "int (length cs) \<le> end_d - start + 1" by simp
    ultimately show "\<exists>n cs r. (\<forall>m\<ge>n. daterange_chunks m start end_d chunk_days = (cs, Some r))
             \<and> int (length cs) \<le> end_d - start + 1" by blast
  qed
  have p3: "chunk_days \<le> 0 \<longrightarrow>
         (\<forall>n cs r. daterange_chunks n start end_d chunk_days = (cs, r) \<longrightarrow>
             r \<noteq> Some (Inr ()) \<and> list_all (\<lambda>ch. fst ch \<le> end_d) cs)"
    using chunks_from_nonpos[OF _ assms(3), of chunk_days] by (simp add: daterange_chunks_def)
  have p4: "chunk_days = 0 \<and> MINORD < start \<longrightarrow>
         (\<forall>n. daterange_chunks n start end_d chunk_days = (replicate n (start, start - 1), None))"
    using chunks_from_zero[of start end_d] assms by (simp add: daterange_chunks_def valid_date_def)
  have p5: "chunk_days < 0 \<longrightarrow>
         (\<exists>n cs. \<forall>m\<ge>n. daterange_chunks m start end_d chunk_days = (cs, Some (Inl OverflowError)))"
  proof
    assume "chunk_days < 0"
    from chunks_from_neg[OF this assms(3)]
    obtain n cs where run: "chunks_from n (chunks_test start end_d chunk_days) end_d chunk_days = (cs, Some (Inl OverflowError))"
      by blast
    from chunks_from_enough_fuel[OF run]
    show "\<exists>n cs. \<forall>m\<ge>n. daterange_chunks m start end_d chunk_days = (cs, Some (Inl OverflowError))"
      by (auto simp add: daterange_chunks_def)
  qed
  show ?thesis by (intro conjI p1 p2 p3 p4 p5)
qed

text \<open>The window 2024-01-01 .. 2024-01-21 with \<open>chunk_days\<close> 7, 0 and -1.\<close>

theorem daterange_chunks_termination_witness:
  "valid_date 738886 \<and> valid_date 738906 \<and> (738886::int) \<le> 738906
    \<and> (\<exists>n cs r. (\<forall>m\<ge>n. daterange_chunks m 738886 738906 7 = (cs, Some r))
             \<and> int (length cs) \<le> 738906 - 738886 + 1)
    \<and> (\<forall>n. daterange_chunks n 738886 738906 0 = (replicate n (738886, 738886 - 1), None))
    \<and> (\<exists>n cs. \<forall>m\<ge>n. daterange_chunks m 738886 738906 (- 1) = (cs, Some (Inl OverflowError)))"
proof -
  have h: "valid_date 738886" "valid_date 738906" "(738886::int) \<le> 738906"
    by (simp_all add: valid_date_def MINORD_def MAXORD_def)
  have "MINORD < 738886" by (simp add: MINORD_def)
  with h daterange_chunks_termination[OF h, of 7] daterange_chunks_termination[OF h, of 0]
    daterange_chunks_termination[OF h, of "- 1"]
  show ?thesis by simp
qed

text \<open>
  The claim that the generator yields chunks for ever whenever \<open>chunk_days \<le> 0\<close> fails for
  negative values: for the one-day window 2024-01-01 and \<open>chunk_days = -400000\<close> the generator
  yields the single chunk (2024-01-01, 0928-11-01) and then raises \<^verbatim>\<open>OverflowError\<close>.
\<close>

theorem daterange_chunks_negative_counterexample:
  "valid_date 738886 \<and> (738886::int) \<le> 738886 \<and> (- 400000::int) \<le> 0
   \<and> (\<forall>n. daterange_chunks (Suc n) 738886 738886 (- 400000) = ([(738886, 338885)], Some (Inl OverflowError)))"
  by (simp add: daterange_chunks_def chunks_test_def chunks_resume_def
      timedelta_def date_add_def valid_date_def MINORD_def MAXORD_def)

section \<open>Properties of the calendar\<close>

lemma div4: "0 \<le> e \<Longrightarrow> e < 4 \<Longrightarrow> (400*a + 100*b + 4*c + e) div 4 = 100*a + 25*b + (c::int)"
proof -
  assume "0 \<le> e" "e < 4"
  have "400*a + 100*b + 4*c + e = 4 * (100*a + 25*b + c) + e" by simp
  then have "(400*a + 100*b + 4*c + e) div 4 = (4 * (100*a + 25*b + c) + e) div 4" by simp
  also have "\<dots> = 100*a + 25*b + c" using \<open>0 \<le> e\<close> \<open>e < 4\<close> by simp
  finally show ?thesis .
qed

lemma div100: "0 \<le> r \<Longrightarrow> r < 100 \<Longrightarrow> (400*a + 100*b + r) div 100 = 4*a + (b::int)"
proof -
  assume "0 \<le> r" "r < 100"
  have "400*a + 100*b + r = 100 * (4*a + b) + r" by simp
  then have "(400*a + 100*b + r) div 100 = (100 * (4*a + b) + r) div 100" by simp
  also have "\<dots> = 4*a + b" using \<open>0 \<le> r\<close> \<open>r < 100\<close> by simp
  finally show ?thesis .
qed

lemma div400: "0 \<le> r \<Longrightarrow> r < 400 \<Longrightarrow> (400*a + r) div 400 = (a::int)"
  by simp

lemma dby_decomp:
  assumes "0 \<le> b" "b \<le> 3" "0 \<le> c" "c \<le> 24" "0 \<le> e" "e \<le> 3"
  shows "days_before_year (400*a + 100*b + 4*c + e + 1) = 146097*a + 36524*b + 1461*c + 365*e"
proof -
  have "(400*a + 100*b + 4*c + e) div 4 = 100*a + 25*b + c" using assms by (intro div4) auto
  moreover have "(400*a + 100*b + (4*c + e)) div 100 = 4*a + b" using assms by (intro div100) auto
  moreover have "(400*a + (100*b + 4*c + e)) div 400 = a" using assms by (intro div400) auto
  ultimately show ?thesis by (simp add: days_before_year_def add.assoc)
qed

lemma mod_zero_iff_top: "1 \<le> r \<Longrightarrow> r \<le> k \<Longrightarrow> r mod k = 0 \<longleftrightarrow> r = (k::int)"
  by (cases "r = k") simp_all

lemma is_leap_decomp:
  assumes "0 \<le> b" "b \<le> 3" "0 \<le> c" "c \<le> 24" "0 \<le> e" "e \<le> 3"
  shows "is_leap (400*a + 100*b + 4*c + e + 1) \<longleftrightarrow> e = 3 \<and> (c \<noteq> 24 \<or> b = 3)"
proof -
  let ?y = "400*a + 100*b + 4*c + e + 1"
  have "(e + 1 + 4 * (100*a + 25*b + c)) mod 4 = (e + 1) mod 4" by (rule mod_mult_self2)
  moreover have "e + 1 + 4 * (100*a + 25*b + c) = ?y" by simp
  ultimately have m4: "?y mod 4 = (e + 1) mod 4" by (simp only:)
  have "(4*c + e + 1 + 100 * (4*a + b)) mod 100 = (4*c + e + 1) mod 100" by (rule mod_mult_self2)
  moreover have "4*c + e + 1 + 100 * (4*a + b) = ?y" by simp
  ultimately have m100: "?y mod 100 = (4*c + e + 1) mod 100" by (simp only:)
  have "(100*b + 4*c + e + 1 + 400 * a) mod 400 = (100*b + 4*c + e + 1) mod 400" by (rule mod_mult_self2)
  moreover have "100*b + 4*c + e + 1 + 400 * a = ?y" by simp
  ultimately have m400: "?y mod 400 = (100*b + 4*c + e + 1) mod 400" by (simp only:)
  have a4: "(e + 1) mod 4 = 0 \<longleftrightarrow> e + 1 = 4"
    using assms by (intro mod_zero_iff_top) auto
  have a100: "(4*c + e + 1) mod 100 = 0 \<longleftrightarrow> 4*c + e + 1 = 100"
    using assms by (intro mod_zero_iff_top) auto
  have a400: "(100*b + 4*c + e + 1) mod 400 = 0 \<longleftrightarrow> 100*b + 4*c + e + 1 = 400"
    using assms by (intro mod_zero_iff_top) auto
  show ?thesis unfolding is_leap_def m4 m100 m400 a4 a100 a400 using assms by auto
qed

lemma leap_day_range: "0 \<le> leap_day y" "leap_day y \<le> 1"
  by (simp_all add: leap_day_def)

lemma month_cases:
  assumes "1 \<le> m" "m \<le> 12"
  obtains "m = 1" | "m = 2" | "m = 3" | "m = 4" | "m = 5" | "m = 6"
    | "m = 7" | "m = 8" | "m = 9" | "m = 10" | "m = 11" | "m = (12::int)"
proof -
  from assms have "m = 1 \<or> m = 2 \<or> m = 3 \<or> m = 4 \<or> m = 5 \<or> m = 6
      \<or> m = 7 \<or> m = 8 \<or> m = 9 \<or> m = 10 \<or> m = 11 \<or> m = 12" by arith
  then show thesis using that by blast
qed

lemma days_in_month_range: "28 \<le> days_in_month y m" "days_in_month y m \<le> 31"
  by (simp_all add: days_in_month_def)

lemma days_before_month_Suc:
  assumes "1 \<le> m" "m \<le> 11"
  shows "days_before_month y (m + 1) = days_before_month y m + days_in_month y m"
proof -
  from assms have "1 \<le> m" "m \<le> 12" by auto
  then show ?thesis
    by (cases m rule: month_cases)
      (use assms in \<open>simp_all add: days_before_month_def days_in_month_def leap_day_def\<close>)
qed

lemma days_before_month_nonneg: "0 \<le> days_before_month y m"
  using leap_day_range[of y] by (simp add: days_before_month_def)

lemma days_before_month_mono:
  assumes "1 \<le> m" "m \<le> m'" "m' \<le> 12"
  shows "days_before_month y m \<le> days_before_month y m'"
  using assms(2,3)
proof (induction m' rule: int_ge_induct)
  case base
  show ?case by simp
next
  case (step i)
  with assms(1) have "days_before_month y (i + 1) = days_before_month y i + days_in_month y i"
    by (intro days_before_month_Suc) auto
  with step days_in_month_range(1)[of y i] show ?case by simp
qed

lemma days_before_month_12: "days_before_month y 12 + 31 = 365 + leap_day y"
  by (simp add: days_before_month_def)

lemma yday_bound:
  assumes "valid_ymd y m d"
  shows "days_before_month y m + d \<le> 365 + leap_day y"
proof (cases "m = 12")
  case True
  with assms days_before_month_12[of y] days_in_month_range(2)[of y m] show ?thesis
    by (simp add: valid_ymd_def)
next
  case False
  with assms have m: "1 \<le> m" "m \<le> 11" by (simp_all add: valid_ymd_def)
  from assms have "days_before_month y m + d \<le> days_before_month y m + days_in_month y m"
    by (simp add: valid_ymd_def)
  also have "\<dots> = days_before_month y (m + 1)" using m by (simp add: days_before_month_Suc)
  also have "\<dots> \<le> days_before_month y 12" using m by (intro days_before_month_mono) auto
  also have "\<dots> \<le> 365 + leap_day y" using days_before_month_12[of y] by simp
  finally show ?thesis .
qed

lemma div_step: "0 < k \<Longrightarrow> (y::int) div k = (y - 1) div k + (if y mod k = 0 then 1 else 0)"
proof -
  assume k: "0 < k"
  show ?thesis
  proof (cases "y mod k = 0")
    case True
    then obtain q where q: "y = k * q" by (auto simp: mod_eq_0_iff_dvd)
    have "(y - 1) div k = (k * (q - 1) + (k - 1)) div k" using q by (simp add: algebra_simps)
    also have "\<dots> = q - 1" using k by simp
    finally show ?thesis using True q k by simp
  next
    case False
    define r where "r = y mod k"
    define q where "q = y div k"
    have y: "y = k * q + r" by (simp add: r_def q_def)
    have "0 \<le> r" "r < k" using k by (simp_all add: r_def)
    moreover have "r \<noteq> 0" using False by (simp add: r_def)
    ultimately have r: "0 < r" "r < k" by simp_all
    have "y - 1 = k * q + (r - 1)" using y by simp
    then have "(y - 1) div k = (k * q + (r - 1)) div k" by (simp only:)
    also have "\<dots> = q" using r by simp
    finally show ?thesis using False by (simp add: q_def)
  qed
qed

lemma leap_day_eq:
  "leap_day y = (if y mod 4 = 0 then 1 else 0) - (if y mod 100 = 0 then 1 else 0) + (if y mod 400 = 0 then 1 else 0)"
proof -
  have d4: "(4::int) dvd 100" and d100: "(100::int) dvd 400" by simp_all
  have a: "y mod 4 = 0" if "y mod 100 = 0"
  proof -
    from that have "100 dvd y" by (simp only: mod_eq_0_iff_dvd)
    with d4 have "4 dvd y" by (rule dvd_trans)
    then show ?thesis by (simp only: mod_eq_0_iff_dvd)
  qed
  have b: "y mod 100 = 0" if "y mod 400 = 0"
  proof -
    from that have "400 dvd y" by (simp only: mod_eq_0_iff_dvd)
    with d100 have "100 dvd y" by (rule dvd_trans)
    then show ?thesis by (simp only: mod_eq_0_iff_dvd)
  qed
  show ?thesis
  proof (cases "y mod 400 = 0")
    case True
    with a b have "y mod 100 = 0" "y mod 4 = 0" by blast+
    with True show ?thesis by (simp only: leap_day_def is_leap_def) simp
  next
    case False
    show ?thesis
    proof (cases "y mod 100 = 0")
      case True
      with a have "y mod 4 = 0" by blast
      with True False show ?thesis by (simp only: leap_day_def is_leap_def) simp
    next
      case n100: False
      show ?thesis
      proof (cases "y mod 4 = 0")
        case True
        with n100 False show ?thesis by (simp only: leap_day_def is_leap_def) simp
      next
        case n4: False
        with n100 False show ?thesis by (simp only: leap_day_def is_leap_def) simp
      qed
    qed
  qed
qed

lemma days_before_year_Suc:
  "days_before_year (y + 1) = days_before_year y + 365 + leap_day y"
proof -
  define i4 :: int where "i4 = (if y mod 4 = 0 then 1 else 0)"
  define i100 :: int where "i100 = (if y mod 100 = 0 then 1 else 0)"
  define i400 :: int where "i400 = (if y mod 400 = 0 then 1 else 0)"
  define q4 where "q4 = (y - 1) div 4"
  define q100 where "q100 = (y - 1) div 100"
  define q400 where "q400 = (y - 1) div 400"
  have s4: "y div 4 = q4 + i4" unfolding q4_def i4_def by (rule div_step) simp
  have s100: "y div 100 = q100 + i100" unfolding q100_def i100_def by (rule div_step) simp
  have s400: "y div 400 = q400 + i400" unfolding q400_def i400_def by (rule div_step) simp
  have l: "leap_day y = i4 - i100 + i400"
    unfolding i4_def i100_def i400_def by (rule leap_day_eq)
  have a: "days_before_year (y + 1) = y * 365 + (q4 + i4) - (q100 + i100) + (q400 + i400)"
    unfolding days_before_year_def by (simp only: add_diff_cancel_right' s4 s100 s400)
  have b: "days_before_year y = (y - 1) * 365 + q4 - q100 + q400"
    unfolding days_before_year_def q4_def q100_def q400_def by (rule refl)
  show ?thesis unfolding a b l by (simp add: algebra_simps)
qed

lemma days_before_year_mono: "y \<le> y' \<Longrightarrow> days_before_year y \<le> days_before_year y'"
proof (induction y' rule: int_ge_induct)
  case base
  show ?case by simp
next
  case (step i)
  with leap_day_range(1)[of i] show ?case by (simp add: days_before_year_Suc)
qed

lemma days_before_year_less:
  assumes "y < y'"
  shows "days_before_year y + 365 + leap_day y \<le> days_before_year y'"
  using days_before_year_mono[of "y + 1" y'] assms by (simp add: days_before_year_Suc)

lemma days_before_year_1: "days_before_year 1 = 0"
  by (simp add: days_before_year_def)

lemma days_before_year_10000: "days_before_year 10000 = MAXORD"
  by (simp add: days_before_year_def MAXORD_def)

lemma ymd2ord_range:
  assumes "valid_ymd y m d"
  shows "MINORD \<le> ymd2ord y m d" and "ymd2ord y m d \<le> MAXORD"
proof -
  from assms have y: "1 \<le> y" "y < 10000" and d: "1 \<le> d" by (simp_all add: valid_ymd_def)
  from days_before_year_mono[OF y(1)] days_before_month_nonneg[of y m] d
  show "MINORD \<le> ymd2ord y m d" by (simp add: ymd2ord_def days_before_year_1 MINORD_def)
  from yday_bound[OF assms] days_before_year_less[OF y(2)]
  show "ymd2ord y m d \<le> MAXORD" by (simp add: ymd2ord_def days_before_year_10000)
qed

lemma ymd2ord_less:
  assumes "valid_ymd y m d" "valid_ymd y' m' d'"
    and "y < y' \<or> y = y' \<and> (m < m' \<or> m = m' \<and> d < d')"
  shows "ymd2ord y m d < ymd2ord y' m' d'"
proof -
  from assms(2) have d': "1 \<le> d'" and m': "m' \<le> 12" by (simp_all add: valid_ymd_def)
  from assms(1) have m: "1 \<le> m" and dm: "d \<le> days_in_month y m" by (simp_all add: valid_ymd_def)
  consider "y < y'" | "y = y'" "m < m'" | "y = y'" "m = m'" "d < d'" using assms(3) by blast
  then show ?thesis
  proof cases
    case 1
    from yday_bound[OF assms(1)] days_before_year_less[OF 1] days_before_month_nonneg[of y' m'] d'
    show ?thesis by (simp add: ymd2ord_def)
  next
    case 2
    with m m' have "days_before_month y (m + 1) = days_before_month y m + days_in_month y m"
      by (intro days_before_month_Suc) auto
    moreover from 2 m m' have "days_before_month y (m + 1) \<le> days_before_month y m'"
      by (intro days_before_month_mono) auto
    ultimately show ?thesis using dm d' 2 by (simp add: ymd2ord_def)
  next
    case 3
    then show ?thesis by (simp add: ymd2ord_def)
  qed
qed

lemma ymd2ord_inj:
  assumes "valid_ymd y m d" "valid_ymd y' m' d'" "ymd2ord y m d = ymd2ord y' m' d'"
  shows "y = y' \<and> m = m' \<and> d = d'"
proof (rule ccontr)
  assume "\<not> (y = y' \<and> m = m' \<and> d = d')"
  then have "(y < y' \<or> y = y' \<and> (m < m' \<or> m = m' \<and> d < d'))
      \<or> (y' < y \<or> y' = y \<and> (m' < m \<or> m' = m \<and> d' < d))" by linarith
  with ymd2ord_less[OF assms(1,2)] ymd2ord_less[OF assms(2,1)] assms(3) show False by auto
qed

lemma days_before_month_vals:
  "days_before_month y 1 = 0" "days_before_month y 2 = 31"
  "days_before_month y 3 = 59 + leap_day y" "days_before_month y 4 = 90 + leap_day y"
  "days_before_month y 5 = 120 + leap_day y" "days_before_month y 6 = 151 + leap_day y"
  "days_before_month y 7 = 181 + leap_day y" "days_before_month y 8 = 212 + leap_day y"
  "days_before_month y 9 = 243 + leap_day y" "days_before_month y 10 = 273 + leap_day y"
  "days_before_month y 11 = 304 + leap_day y" "days_before_month y 12 = 334 + leap_day y"
  by (simp_all add: days_before_month_def)

lemma days_in_month_vals:
  "days_in_month y 1 = 31" "days_in_month y 2 = 28 + leap_day y" "days_in_month y 3 = 31"
  "days_in_month y 4 = 30" "days_in_month y 5 = 31" "days_in_month y 6 = 30"
  "days_in_month y 7 = 31" "days_in_month y 8 = 31" "days_in_month y 9 = 30"
  "days_in_month y 10 = 31" "days_in_month y 11 = 30" "days_in_month y 12 = 31"
  by (simp_all add: days_in_month_def leap_day_def)

lemma month_of_yday_ok:
  assumes "0 \<le> r" "r < 365 + leap_day y"
  shows "1 \<le> month_of_yday y r \<and> month_of_yday y r \<le> 12
    \<and> days_before_month y (month_of_yday y r) \<le> r
    \<and> r < days_before_month y (month_of_yday y r) + days_in_month y (month_of_yday y r)"
proof -
  define L where "L = leap_day y"
  have L: "0 \<le> L" "L \<le> 1" using leap_day_range[of y] by (simp_all add: L_def)
  note v = days_before_month_vals[of y, folded L_def] days_in_month_vals[of y, folded L_def]
  from assms have r: "0 \<le> r" "r < 365 + L" by (simp_all add: L_def)
  consider "r < 31" | "31 \<le> r" "r < 59 + L" | "59 + L \<le> r" "r < 90 + L"
    | "90 + L \<le> r" "r < 120 + L" | "120 + L \<le> r" "r < 151 + L" | "151 + L \<le> r" "r < 181 + L"
    | "181 + L \<le> r" "r < 212 + L" | "212 + L \<le> r" "r < 243 + L" | "243 + L \<le> r" "r < 273 + L"
    | "273 + L \<le> r" "r < 304 + L" | "304 + L \<le> r" "r < 334 + L" | "334 + L \<le> r"
    by linarith
  then show ?thesis
  proof cases
    case 1 with r L have "month_of_yday y r = 1" by (simp add: month_of_yday_def v)
    with 1 r L show ?thesis by (simp add: v)
  next
    case 2 with r L have "month_of_yday y r = 2" by (simp add: month_of_yday_def v)
    with 2 r L show ?thesis by (simp add: v)
  next
    case 3 with r L have "month_of_yday y r = 3" by (simp add: month_of_yday_def v)
    with 3 r L show ?thesis by (simp add: v)
  next
    case 4 with r L have "month_of_yday y r = 4" by (simp add: month_of_yday_def v)
    with 4 r L show ?thesis by (simp add: v)
  next
    case 5 with r L have "month_of_yday y r = 5" by (simp add: month_of_yday_def v)
    with 5 r L show ?thesis by (simp add: v)
  next
    case 6 with r L have "month_of_yday y r = 6" by (simp add: month_of_yday_def v)
    with 6 r L show ?thesis by (simp add: v)
  next
    case 7 with r L have "month_of_yday y r = 7" by (simp add: month_of_yday_def v)
    with 7 r L show ?thesis by (simp add: v)
  next
    case 8 with r L have "month_of_yday y r = 8" by (simp add: month_of_yday_def v)
    with 8 r L show ?thesis by (simp add: v)
  next
    case 9 with r L have "month_of_yday y r = 9" by (simp add: month_of_yday_def v)
    with 9 r L show ?thesis by (simp add: v)
  next
    case 10 with r L have "month_of_yday y r = 10" by (simp add: month_of_yday_def v)
    with 10 r L show ?thesis by (simp add: v)
  next
    case 11 with r L have "month_of_yday y r = 11" by (simp add: month_of_yday_def v)
    with 11 r L show ?thesis by (simp add: v)
  next
    case 12 with r L have "month_of_yday y r = 12" by (simp add: month_of_yday_def v)
    with 12 r L show ?thesis by (simp add: v)
  qed
qed

lemma divmod_int_facts:
  fixes n k :: int
  assumes "0 < k"
  shows "n = k * (n div k) + n mod k" "0 \<le> n mod k" "n mod k < k"
  using assms by simp_all

lemma ord2ymd_correct:
  assumes "valid_date n"
  shows "\<exists>y m d. ord2ymd n = (y, m, d) \<and> valid_ymd y m d \<and> ymd2ord y m d = n"
proof -
  define a where "a = (n - 1) div 146097"
  define r400 where "r400 = (n - 1) mod 146097"
  define b where "b = r400 div 36524"
  define r100 where "r100 = r400 mod 36524"
  define c where "c = r100 div 1461"
  define r4 where "r4 = r100 mod 1461"
  define e where "e = r4 div 365"
  define r where "r = r4 mod 365"
  define y where "y = a * 400 + b * 100 + c * 4 + e + 1"
  have n: "1 \<le> n" "n \<le> 3652059" using assms by (simp_all add: valid_date_def MINORD_def MAXORD_def)
  have f1: "n - 1 = 146097 * a + r400" "0 \<le> r400" "r400 < 146097"
    unfolding a_def r400_def by (rule divmod_int_facts; simp)+
  have f2: "r400 = 36524 * b + r100" "0 \<le> r100" "r100 < 36524"
    unfolding b_def r100_def by (rule divmod_int_facts; simp)+
  have f3: "r100 = 1461 * c + r4" "0 \<le> r4" "r4 < 1461"
    unfolding c_def r4_def by (rule divmod_int_facts; simp)+
  have f4: "r4 = 365 * e + r" "0 \<le> r" "r < 365"
    unfolding e_def r_def by (rule divmod_int_facts; simp)+
  have a: "0 \<le> a" "a \<le> 24" using f1 n by linarith+
  have b: "0 \<le> b" "b \<le> 4" using f2 f1 by linarith+
  have c: "0 \<le> c" "c \<le> 24" using f3 f2 by linarith+
  have e: "0 \<le> e" "e \<le> 4" using f4 f3 by linarith+
  have o: "ord2ymd n = (if e = 4 \<or> b = 4 then (y - 1, 12, 31)
         else (y, month_of_yday y r, r - days_before_month y (month_of_yday y r) + 1))"
    unfolding ord2ymd_def Let_def a_def r400_def b_def r100_def c_def r4_def e_def r_def y_def
    by (rule refl)
  show ?thesis
  proof (cases "b = 4")
    case True
    with f1 f2 f3 f4 c e have z: "r100 = 0" "c = 0" "r4 = 0" "e = 0" "r = 0" by linarith+
    have y1: "y - 1 = 400 * a + 100 * 3 + 4 * 24 + 3 + 1" using True z by (simp add: y_def)
    have dby: "days_before_year (y - 1) = 146097 * a + 36524 * 3 + 1461 * 24 + 365 * 3"
      unfolding y1 by (rule dby_decomp) simp_all
    have "is_leap (y - 1)" unfolding y1 by (subst is_leap_decomp) simp_all
    then have lp: "leap_day (y - 1) = 1" by (simp add: leap_day_def)
    have "a \<le> 23" using f1 f2 True n by linarith
    then have "valid_ymd (y - 1) 12 31" using a y1 by (simp add: valid_ymd_def days_in_month_vals)
    moreover have "ymd2ord (y - 1) 12 31 = n"
      using f1 f2 True z by (simp add: ymd2ord_def dby days_before_month_vals lp)
    moreover have "ord2ymd n = (y - 1, 12, 31)" using o True by simp
    ultimately show ?thesis by blast
  next
    case b3: False
    with b have b': "b \<le> 3" by simp
    show ?thesis
    proof (cases "e = 4")
      case True
      with f4 f3 f2 c have z: "r = 0" "c \<le> 23" by linarith+
      have y1: "y - 1 = 400 * a + 100 * b + 4 * c + 3 + 1" using True by (simp add: y_def)
      have dby: "days_before_year (y - 1) = 146097 * a + 36524 * b + 1461 * c + 365 * 3"
        unfolding y1 using b b' c z by (intro dby_decomp) simp_all
      have "is_leap (y - 1)" unfolding y1 using b b' c z by (subst is_leap_decomp) simp_all
      then have lp: "leap_day (y - 1) = 1" by (simp add: leap_day_def)
      have "1 \<le> y - 1" "y - 1 \<le> 9999" using a b b' c z y1 by linarith+
      then have "valid_ymd (y - 1) 12 31" by (simp add: valid_ymd_def days_in_month_vals)
      moreover have "ymd2ord (y - 1) 12 31 = n"
        using f1 f2 f3 f4 True z by (simp add: ymd2ord_def dby days_before_month_vals lp)
      moreover have "ord2ymd n = (y - 1, 12, 31)" using o True by simp
      ultimately show ?thesis by blast
    next
      case False
      with e have e': "e \<le> 3" by simp
      let ?m = "month_of_yday y r"
      have y1: "y = 400 * a + 100 * b + 4 * c + e + 1" by (simp add: y_def)
      have dby: "days_before_year y = 146097 * a + 36524 * b + 1461 * c + 365 * e"
        unfolding y1 using b b' c e e' by (intro dby_decomp) simp_all
      have "r < 365 + leap_day y" using f4 leap_day_range(1)[of y] by linarith
      from month_of_yday_ok[OF f4(2) this]
      have m: "1 \<le> ?m" "?m \<le> 12" "days_before_month y ?m \<le> r"
        "r < days_before_month y ?m + days_in_month y ?m" by simp_all
      have "\<not> (a = 24 \<and> b = 3 \<and> c = 24 \<and> e = 3)" using f1 f2 f3 f4 n by linarith
      then have "100 * b + 4 * c + e \<le> 398 \<or> a \<le> 23" using a b' c e' by linarith
      then have "y \<le> 9999" using a b' c e' y1 by linarith
      moreover have "1 \<le> y" using a b c e y1 by linarith
      ultimately have "valid_ymd y ?m (r - days_before_month y ?m + 1)"
        using m by (simp add: valid_ymd_def)
      moreover have "ymd2ord y ?m (r - days_before_month y ?m + 1) = n"
        using f1 f2 f3 f4 by (simp add: ymd2ord_def dby)
      moreover have "ord2ymd n = (y, ?m, r - days_before_month y ?m + 1)"
        using o False b3 by simp
      ultimately show ?thesis by blast
    qed
  qed
qed

lemma ord2ymd_ymd2ord:
  assumes "valid_ymd y m d"
  shows "ord2ymd (ymd2ord y m d) = (y, m, d)"
proof -
  from ymd2ord_range[OF assms] have "valid_date (ymd2ord y m d)" by (simp add: valid_date_def)
  from ord2ymd_correct[OF this] obtain y' m' d' where
    o: "ord2ymd (ymd2ord y m d) = (y', m', d')" and v: "valid_ymd y' m' d'"
    and eq: "ymd2ord y' m' d' = ymd2ord y m d" by blast
  from ymd2ord_inj[OF v assms eq] o show ?thesis by simp
qed

lemma valid_ymd_of_date:
  assumes "valid_date n"
  shows "valid_ymd (year n) (month n) (day n)" and "ymd2ord (year n) (month n) (day n) = n"
  using ord2ymd_correct[OF assms] by (auto simp: year_def month_def day_def)

lemma date_ymd_of_date:
  "valid_date n \<Longrightarrow> date_ymd (year n) (month n) (day n) = Inr n"
  by (simp add: date_ymd_def valid_ymd_of_date)

lemma fields_of_ymd2ord:
  assumes "valid_ymd y m d"
  shows "year (ymd2ord y m d) = y" "month (ymd2ord y m d) = m" "day (ymd2ord y m d) = d"
  by (simp_all add: year_def month_def day_def ord2ymd_ymd2ord[OF assms])

section \<open>Properties of rendering and bucketing\<close>

subsection \<open>Decimal digits\<close>

lemma digit_cases:
  assumes "0 \<le> k" "k \<le> 9"
  obtains "k = 0" | "k = 1" | "k = 2" | "k = 3" | "k = 4" | "k = 5" | "k = 6" | "k = 7" | "k = 8" | "k = (9::int)"
proof -
  from assms have "k = 0 \<or> k = 1 \<or> k = 2 \<or> k = 3 \<or> k = 4 \<or> k = 5 \<or> k = 6 \<or> k = 7 \<or> k = 8 \<or> k = 9"
    by arith
  then show thesis using that by blast
qed

lemma of_char_digit_char:
  assumes "0 \<le> k" "k \<le> 9"
  shows "of_char (digit_char k) = (48 + nat k :: nat)"
  using assms by (cases k rule: digit_cases) (simp_all add: digit_char_def)

lemma is_digit_digit_char:
  assumes "0 \<le> k" "k \<le> 9"
  shows "is_digit (digit_char k)"
  using assms by (cases k rule: digit_cases) (simp_all add: digit_char_def is_digit_def)

lemma digit_char_less_iff:
  assumes "0 \<le> a" "a \<le> 9" "0 \<le> b" "b \<le> 9"
  shows "digit_char a < digit_char b \<longleftrightarrow> a < b"
  using assms by (auto simp add: less_char_def of_char_digit_char)

lemma digit_char_eq_iff:
  assumes "0 \<le> a" "a \<le> 9" "0 \<le> b" "b \<le> 9"
  shows "digit_char a = digit_char b \<longleftrightarrow> a = b"
proof
  assume "digit_char a = digit_char b"
  then have "(of_char (digit_char a) :: nat) = of_char (digit_char b)" by simp
  with assms show "a = b" by (simp add: of_char_digit_char)
qed simp

lemma append_less_iff:
  fixes xs ys :: "'a::linorder list"
  assumes "length xs = length ys"
  shows "xs @ u < ys @ v \<longleftrightarrow> xs < ys \<or> xs = ys \<and> u < v"
  using assms by (induction xs ys rule: list_induct2) auto

lemma append_eq_iff:
  assumes "length xs = length ys"
  shows "xs @ u = ys @ v \<longleftrightarrow> xs = ys \<and> u = v"
  using assms by simp

lemma length_pad [simp]: "length (pad2 n) = 2" "length (pad4 n) = 4"
  by (simp_all add: pad2_def pad4_def)

lemma pad2_less_iff:
  assumes "0 \<le> a" "a < 100" "0 \<le> b" "b < 100"
  shows "pad2 a < pad2 b \<longleftrightarrow> a < b"
proof -
  define a1 a0 b1 b0 where "a1 = a div 10" and "a0 = a mod 10" and "b1 = b div 10" and "b0 = b mod 10"
  have a: "a = 10 * a1 + a0" and b: "b = 10 * b1 + b0" by (simp_all add: a1_def a0_def b1_def b0_def)
  have r: "0 \<le> a0" "a0 \<le> 9" "0 \<le> b0" "b0 \<le> 9" by (simp_all add: a0_def b0_def)
  have r1: "0 \<le> a1" "a1 \<le> 9" "0 \<le> b1" "b1 \<le> 9" using assms a b r by linarith+
  have m: "a1 mod 10 = a1" "b1 mod 10 = b1" using r1 by simp_all
  have "pad2 a < pad2 b \<longleftrightarrow> a1 < b1 \<or> a1 = b1 \<and> a0 < b0"
    unfolding pad2_def a1_def[symmetric] a0_def[symmetric] b1_def[symmetric] b0_def[symmetric] m
    using r r1 by (simp add: digit_char_less_iff digit_char_eq_iff)
  also have "\<dots> \<longleftrightarrow> a < b" using a b r r1 by linarith
  finally show ?thesis .
qed

lemma pad2_eq_iff:
  assumes "0 \<le> a" "a < 100" "0 \<le> b" "b < 100"
  shows "pad2 a = pad2 b \<longleftrightarrow> a = b"
  using pad2_less_iff[OF assms] pad2_less_iff[OF assms(3,4,1,2)]
  by (metis less_irrefl linorder_less_linear)

lemma pad4_split: "pad4 n = pad2 (n div 100) @ pad2 (n mod 100)"
proof -
  have "n div (100 * 10) = n div 100 div 10" by (rule zdiv_zmult2_eq) simp
  then have a: "n div 100 div 10 = n div 1000" by simp
  have b: "n mod 100 mod 10 = n mod 10" by (rule mod_mod_cancel) simp
  have "n mod (10 * 10) = 10 * (n div 10 mod 10) + n mod 10" by (rule zmod_zmult2_eq) simp
  then have "n mod 100 = 10 * (n div 10 mod 10) + n mod 10" by simp
  then have "n mod 100 div 10 = (10 * (n div 10 mod 10) + n mod 10) div 10" by (simp only:)
  also have "\<dots> = n div 10 mod 10" by simp
  finally have c: "n mod 100 div 10 mod 10 = n div 10 mod 10" by simp
  show ?thesis unfolding pad4_def pad2_def a b c by simp
qed

lemma pad4_less_iff:
  assumes "0 \<le> a" "a < 10000" "0 \<le> b" "b < 10000"
  shows "pad4 a < pad4 b \<longleftrightarrow> a < b"
proof -
  define ah al bh bl where "ah = a div 100" and "al = a mod 100" and "bh = b div 100" and "bl = b mod 100"
  have a: "a = 100 * ah + al" and b: "b = 100 * bh + bl" by (simp_all add: ah_def al_def bh_def bl_def)
  have l: "0 \<le> al" "al < 100" "0 \<le> bl" "bl < 100" by (simp_all add: al_def bl_def)
  have h: "0 \<le> ah" "ah < 100" "0 \<le> bh" "bh < 100" using assms a b l by linarith+
  have "pad4 a < pad4 b \<longleftrightarrow> pad2 ah < pad2 bh \<or> pad2 ah = pad2 bh \<and> pad2 al < pad2 bl"
    unfolding pad4_split ah_def[symmetric] al_def[symmetric] bh_def[symmetric] bl_def[symmetric]
    by (rule append_less_iff) simp
  also have "\<dots> \<longleftrightarrow> ah < bh \<or> ah = bh \<and> al < bl"
    by (simp only: pad2_less_iff[OF h] pad2_eq_iff[OF h] pad2_less_iff[OF l])
  also have "\<dots> \<longleftrightarrow> a < b" using a b l h by linarith
  finally show ?thesis .
qed

lemma pad4_eq_iff:
  assumes "0 \<le> a" "a < 10000" "0 \<le> b" "b < 10000"
  shows "pad4 a = pad4 b \<longleftrightarrow> a = b"
  using pad4_less_iff[OF assms] pad4_less_iff[OF assms(3,4,1,2)]
  by (metis less_irrefl linorder_less_linear)

lemma pad2_digits: "list_all is_digit (pad2 n)"
  by (simp add: pad2_def is_digit_digit_char)

lemma pad4_digits: "list_all is_digit (pad4 n)"
  by (simp add: pad4_split pad2_digits)

text \<open>The year as \<^verbatim>\<open>%Y\<close> writes it: one to four digits, and the year can be read back.\<close>

lemma length_strftime_Y:
  "length (strftime_Y y) = (if y < 10 then 1 else if y < 100 then 2 else if y < 1000 then 3 else 4)"
  by (simp add: strftime_Y_def)


lemma strftime_Y_digits:
  assumes "1 \<le> y"
  shows "list_all is_digit (strftime_Y y)"
proof -
  have "is_digit (digit_char y)" if "y < 10"
    using assms that by (intro is_digit_digit_char) simp_all
  moreover have "is_digit (digit_char (y div 100))" if "100 \<le> y" "y < 1000"
    using that by (intro is_digit_digit_char) simp_all
  ultimately show ?thesis
    using pad2_digits[of y] pad2_digits[of "y mod 100"] pad4_digits[of y]
    by (simp add: strftime_Y_def)
qed

lemma strftime_Y_eq_iff:
  assumes "1 \<le> a" "a < 10000" "1 \<le> b" "b < 10000"
  shows "strftime_Y a = strftime_Y b \<longleftrightarrow> a = b"
proof
  assume eq: "strftime_Y a = strftime_Y b"
  then have len: "length (strftime_Y a) = length (strftime_Y b)" by simp
  consider (one) "a < 10" | (two) "10 \<le> a" "a < 100" | (three) "100 \<le> a" "a < 1000" | (four) "1000 \<le> a"
    by linarith
  then show "a = b"
  proof cases
    case one
    with len have b: "b < 10" by (simp add: length_strftime_Y split: if_splits)
    with one eq have "digit_char a = digit_char b" by (simp add: strftime_Y_def)
    with one b assms show ?thesis by (simp add: digit_char_eq_iff)
  next
    case two
    with len have b: "10 \<le> b" "b < 100" by (simp_all add: length_strftime_Y split: if_splits)
    with two eq have "pad2 a = pad2 b" by (simp add: strftime_Y_def)
    with two b show ?thesis by (simp add: pad2_eq_iff)
  next
    case three
    with len have b: "100 \<le> b" "b < 1000" by (simp_all add: length_strftime_Y split: if_splits)
    with three eq have d: "digit_char (a div 100) = digit_char (b div 100)"
      and p: "pad2 (a mod 100) = pad2 (b mod 100)" by (simp_all add: strftime_Y_def)
    have "0 \<le> a div 100" "a div 100 \<le> 9" "0 \<le> b div 100" "b div 100 \<le> 9"
      using three b by simp_all
    with d have h: "a div 100 = b div 100" by (simp add: digit_char_eq_iff)
    from p have l: "a mod 100 = b mod 100" by (simp add: pad2_eq_iff)
    have "a = 100 * (a div 100) + a mod 100" "b = 100 * (b div 100) + b mod 100" by simp_all
    with h l show ?thesis by simp
  next
    case four
    with len have b: "1000 \<le> b" by (simp add: length_strftime_Y split: if_splits)
    with four eq have "pad4 a = pad4 b" by (simp add: strftime_Y_def)
    with assms show ?thesis by (simp add: pad4_eq_iff)
  qed
qed simp

text \<open>Text that begins with digits and a hyphen has one reading.\<close>

lemma digits_split:
  assumes "list_all is_digit xs" "list_all is_digit ys" "xs @ CHR ''-'' # u = ys @ CHR ''-'' # v"
  shows "xs = ys \<and> u = v"
proof -
  have n: "\<not> is_digit CHR ''-''" by (simp add: is_digit_def)
  have "takeWhile is_digit (zs @ CHR ''-'' # w) = zs" if "list_all is_digit zs" for zs w
    using that n by (simp add: list_all_iff)
  from this[OF assms(1), of u] this[OF assms(2), of v] assms(3) have "xs = ys" by simp
  with assms(3) show ?thesis by simp
qed

subsection \<open>Weeks, months and the order of rendered dates\<close>

lemma weekday_range: "0 \<le> weekday d" "weekday d \<le> 6"
  by (simp_all add: weekday_def)

lemma monday_ge_MINORD:
  assumes "MINORD \<le> d"
  shows "MINORD \<le> d - weekday d"
proof -
  define q where "q = (d + 6) div 7"
  have "d + 6 = 7 * q + weekday d" by (simp add: q_def weekday_def)
  moreover have "1 \<le> q" using assms by (simp add: q_def MINORD_def pos_imp_zdiv_pos_iff)
  ultimately show ?thesis by (simp add: MINORD_def)
qed

lemma weekday_monday: "weekday (d - weekday d) = 0"
proof -
  have "d - weekday d + 6 = 7 * ((d + 6) div 7)" by (simp add: weekday_def minus_mod_eq_mult_div[symmetric] algebra_simps)
  then show ?thesis by (simp add: weekday_def[of "d - weekday d"])
qed

lemma monday_bucket_eq:
  assumes "valid_date (dt_date t)"
  shows "monday_bucket t = Inr (dt_date t - weekday (dt_date t))"
    and "valid_date (dt_date t - weekday (dt_date t))"
proof -
  let ?d = "dt_date t"
  from assms monday_ge_MINORD[of ?d] weekday_range(1)[of ?d]
  show v: "valid_date (?d - weekday ?d)" by (simp add: valid_date_def)
  then show "monday_bucket t = Inr (?d - weekday ?d)"
    by (simp add: monday_bucket_def date_add_def valid_date_def Let_def)
qed

lemma year_range:
  assumes "valid_date d"
  shows "1 \<le> year d" "year d \<le> 9999" "1 \<le> month d" "month d \<le> 12" "1 \<le> day d" "day d \<le> 31"
  using valid_ymd_of_date(1)[OF assms] days_in_month_range(2)[of "year d" "month d"]
  by (simp_all add: valid_ymd_def)

lemma mk_datetime_of_date:
  assumes "valid_date d"
  shows "mk_datetime (year d) (month d) (day d) 0 0 0 = Inr \<lparr>dt_date = d, dt_hour = 0, dt_minute = 0, dt_second = 0\<rparr>"
  using valid_ymd_of_date[OF assms] by (simp add: mk_datetime_def)

lemma first_of_month:
  assumes "valid_date d"
  shows "valid_ymd (year d) (month d) 1"
  using valid_ymd_of_date(1)[OF assms] days_in_month_range(1)[of "year d" "month d"]
  by (simp add: valid_ymd_def)


lemma date_eq_iff_fields:
  assumes "valid_date a" "valid_date b"
  shows "a = b \<longleftrightarrow> year a = year b \<and> month a = month b \<and> day a = day b"
proof
  assume "year a = year b \<and> month a = month b \<and> day a = day b"
  then have "ymd2ord (year a) (month a) (day a) = ymd2ord (year b) (month b) (day b)" by simp
  then show "a = b"
    by (simp only: valid_ymd_of_date(2)[OF assms(1)] valid_ymd_of_date(2)[OF assms(2)])
qed simp


lemma length_isoformat [simp]: "length (isoformat d) = 10"
  by (simp add: isoformat_def)




text \<open>The rendering of a date has one reading, padded or not.\<close>

lemma strftime_ymd_append_eq_iff:
  assumes "valid_date a" "valid_date b"
  shows "strftime_ymd a @ u = strftime_ymd b @ v \<longleftrightarrow> a = b \<and> u = v"
proof
  assume eq: "strftime_ymd a @ u = strftime_ymd b @ v"
  note ra = year_range[OF assms(1)] and rb = year_range[OF assms(2)]
  let ?ra = "pad2 (month a) @ ''-'' @ pad2 (day a) @ u"
  let ?rb = "pad2 (month b) @ ''-'' @ pad2 (day b) @ v"
  from eq have "strftime_Y (year a) @ CHR ''-'' # ?ra = strftime_Y (year b) @ CHR ''-'' # ?rb"
    by (simp add: strftime_ymd_def)
  from digits_split[OF strftime_Y_digits[OF ra(1)] strftime_Y_digits[OF rb(1)] this]
  have y: "strftime_Y (year a) = strftime_Y (year b)" and r: "?ra = ?rb" by simp_all
  from y ra rb have "year a = year b" by (simp add: strftime_Y_eq_iff)
  moreover from r have "pad2 (month a) = pad2 (month b)" "pad2 (day a) = pad2 (day b)" "u = v"
    by simp_all
  moreover from this(1,2) ra rb have "month a = month b" "day a = day b"
    by (simp_all add: pad2_eq_iff)
  ultimately show "a = b \<and> u = v" by (simp add: date_eq_iff_fields[OF assms])
qed simp


lemma strftime_iso_z_eq_iff:
  assumes "valid_datetime s" "valid_datetime t"
  shows "strftime_iso_z s = strftime_iso_z t \<longleftrightarrow> s = t"
proof
  assume eq: "strftime_iso_z s = strftime_iso_z t"
  from assms have v: "valid_date (dt_date s)" "valid_date (dt_date t)"
    and h: "0 \<le> dt_hour s" "dt_hour s < 100" "0 \<le> dt_hour t" "dt_hour t < 100"
    and m: "0 \<le> dt_minute s" "dt_minute s < 100" "0 \<le> dt_minute t" "dt_minute t < 100"
    and c: "0 \<le> dt_second s" "dt_second s < 100" "0 \<le> dt_second t" "dt_second t < 100"
    by (simp_all add: valid_datetime_def)
  from eq have "dt_date s = dt_date t
     \<and> ''T'' @ pad2 (dt_hour s) @ '':'' @ pad2 (dt_minute s) @ '':'' @ pad2 (dt_second s) @ ''Z''
       = ''T'' @ pad2 (dt_hour t) @ '':'' @ pad2 (dt_minute t) @ '':'' @ pad2 (dt_second t) @ ''Z''"
    unfolding strftime_iso_z_def by (simp only: strftime_ymd_append_eq_iff[OF v])
  then have "dt_date s = dt_date t" "pad2 (dt_hour s) = pad2 (dt_hour t)"
    "pad2 (dt_minute s) = pad2 (dt_minute t)" "pad2 (dt_second s) = pad2 (dt_second t)"
    by simp_all
  then have "dt_date s = dt_date t" "dt_hour s = dt_hour t" "dt_minute s = dt_minute t" "dt_second s = dt_second t"
    by (simp_all add: pad2_eq_iff[OF h] pad2_eq_iff[OF m] pad2_eq_iff[OF c])
  then show "s = t" by simp
qed simp



subsection \<open>The bucket of a bucket\<close>

lemma valid_midnight: "valid_date d \<Longrightarrow> valid_datetime (midnight d)"
  by (simp add: valid_datetime_def midnight_def)

lemma mk_datetime_midnight:
  assumes "valid_date d"
  shows "mk_datetime (year d) (month d) (day d) 0 0 0 = Inr (midnight d)"
  using mk_datetime_of_date[OF assms] by (simp add: midnight_def)

lemma datetime_of_date_eq: "valid_date d \<Longrightarrow> datetime_of_date d = Inr (midnight d)"
  by (simp add: datetime_of_date_def mk_datetime_midnight)

lemma monday_bucket_monday:
  assumes "valid_date d" "weekday d = 0"
  shows "monday_bucket (midnight d) = Inr d"
  using monday_bucket_eq(1)[of "midnight d"] assms by (simp add: midnight_def)

lemma month_bucket_eq:
  assumes "valid_date (dt_date t)"
  shows "month_bucket t = Inr (ymd2ord (year (dt_date t)) (month (dt_date t)) 1)"
  using first_of_month[OF assms] by (simp add: month_bucket_def date_ymd_def Let_def)

lemma valid_month_start:
  assumes "valid_date d"
  shows "valid_date (ymd2ord (year d) (month d) 1)"
  using ymd2ord_range[OF first_of_month[OF assms]] by (simp add: valid_date_def)

lemma month_bucket_month_start:
  assumes "valid_date d"
  shows "month_bucket (midnight (ymd2ord (year d) (month d) 1)) = Inr (ymd2ord (year d) (month d) 1)"
proof -
  note f = fields_of_ymd2ord[OF first_of_month[OF assms]]
  have "valid_date (dt_date (midnight (ymd2ord (year d) (month d) 1)))"
    using valid_month_start[OF assms] by (simp add: midnight_def)
  from month_bucket_eq[OF this] show ?thesis by (simp add: midnight_def f)
qed

lemma datetime_sub_weekday:
  assumes "valid_date (dt_date t)"
  shows "datetime_sub_days t (weekday (dt_date t)) = Inr (t\<lparr>dt_date := dt_date t - weekday (dt_date t)\<rparr>)"
  using monday_bucket_eq(2)[OF assms]
  by (simp add: datetime_sub_days_def date_add_def valid_date_def)

lemma monday_bucket_dt_eq:
  assumes "valid_date (dt_date t)"
  shows "monday_bucket_dt t = Inr (midnight (dt_date t - weekday (dt_date t)))"
  using monday_bucket_eq(2)[OF assms]
  by (simp add: monday_bucket_dt_def datetime_sub_weekday[OF assms] mk_datetime_midnight)

lemma monday_bucket_dt_monday:
  assumes "valid_date d" "weekday d = 0"
  shows "monday_bucket_dt (midnight d) = Inr (midnight d)"
  using monday_bucket_dt_eq[of "midnight d"] assms by (simp add: midnight_def)

lemma bucket_start_eq:
  assumes "valid_date (dt_date t)"
  shows "bucket_start t g = Inr (midnight
     (if g = ''daily'' then dt_date t
      else if g = ''weekly'' then dt_date t - weekday (dt_date t)
      else ymd2ord (year (dt_date t)) (month (dt_date t)) 1))"
proof -
  have "mk_datetime (year (dt_date t)) (month (dt_date t)) 1 0 0 0
      = Inr (midnight (ymd2ord (year (dt_date t)) (month (dt_date t)) 1))"
    using first_of_month[OF assms] by (simp add: mk_datetime_def midnight_def)
  then show ?thesis
    using monday_bucket_eq(2)[OF assms]
    by (simp add: bucket_start_def datetime_sub_weekday[OF assms] mk_datetime_midnight assms)
qed

lemma bucket_start_valid:
  assumes "valid_date (dt_date t)" "bucket_start t g = Inr b"
  shows "valid_datetime b"
  using assms(2) monday_bucket_eq(2)[OF assms(1)] valid_month_start[OF assms(1)] assms(1)
  by (auto simp: bucket_start_eq[OF assms(1)] intro!: valid_midnight split: if_splits)

lemma bucket_start_idem:
  assumes "valid_date (dt_date t)" "bucket_start t g = Inr b"
  shows "bucket_start b g = Inr b"
proof -
  let ?d = "dt_date t"
  consider (day) "g = ''daily''" | (week) "g \<noteq> ''daily''" "g = ''weekly''" | (month) "g \<noteq> ''daily''" "g \<noteq> ''weekly''"
    by blast
  then show ?thesis
  proof cases
    case day
    with assms have b: "b = midnight ?d" by (simp add: bucket_start_eq)
    have "valid_date (dt_date (midnight ?d))" using assms(1) by (simp add: midnight_def)
    from bucket_start_eq[OF this, of g] day show ?thesis by (simp add: b midnight_def)
  next
    case week
    with assms have b: "b = midnight (?d - weekday ?d)" by (simp add: bucket_start_eq)
    have "valid_date (dt_date (midnight (?d - weekday ?d)))"
      using monday_bucket_eq(2)[OF assms(1)] by (simp add: midnight_def)
    from bucket_start_eq[OF this, of g] week show ?thesis
      by (simp add: b midnight_def weekday_monday)
  next
    case month
    with assms have b: "b = midnight (ymd2ord (year ?d) (month ?d) 1)" by (simp add: bucket_start_eq)
    note f = fields_of_ymd2ord[OF first_of_month[OF assms(1)]]
    have "valid_date (dt_date (midnight (ymd2ord (year ?d) (month ?d) 1)))"
      using valid_month_start[OF assms(1)] by (simp add: midnight_def)
    from bucket_start_eq[OF this, of g] month show ?thesis
      by (simp add: b midnight_def f)
  qed
qed

subsection \<open>Claim C9\<close>

text \<open>
  C9.  For every timestamp \<open>t\<close> and every granularity the bucketing functions are idempotent.
  In \<^verbatim>\<open>github_weekly_trends.py\<close> the bucket of \<open>t\<close> is a date \<open>b\<close> (a Monday, or the first
  of a month), its timestamp is midnight of \<open>b\<close>, and the bucket of that timestamp is \<open>b\<close>
  again.  In \<^verbatim>\<open>contributors_weekly.py\<close> the bucket is the timestamp of Monday midnight, which
  is its own bucket.  In \<^verbatim>\<open>github_prs_to_csv.py\<close>, for every value \<open>g\<close> of \<^verbatim>\<open>--bucket\<close>, the key
  of \<open>t\<close> is the rendering of a timestamp \<open>b\<close> (the start of the day, the week or the month);
  \<open>b\<close> has the same key, and so has every timestamp that renders as the key.
\<close>

theorem bucket_idempotent:
  assumes "valid_datetime t"
  shows "(\<exists>b. monday_bucket t = Inr b \<and> datetime_of_date b = Inr (midnight b)
            \<and> monday_bucket (midnight b) = Inr b)
    \<and> (\<exists>b. month_bucket t = Inr b \<and> datetime_of_date b = Inr (midnight b)
            \<and> month_bucket (midnight b) = Inr b)
    \<and> (\<exists>b. monday_bucket_dt t = Inr b \<and> monday_bucket_dt b = Inr b)
    \<and> (\<exists>b. bucket_start t g = Inr b \<and> bucket_key t g = Inr (strftime_iso_z b)
            \<and> valid_datetime b \<and> bucket_key b g = bucket_key t g
            \<and> (\<forall>t'. valid_datetime t' \<and> strftime_iso_z t' = strftime_iso_z b
                   \<longrightarrow> bucket_key t' g = bucket_key t g))"
proof -
  let ?d = "dt_date t"
  from assms have v: "valid_date ?d" by (simp add: valid_datetime_def)
  note mon = monday_bucket_eq[OF v]
  have p1: "\<exists>b. monday_bucket t = Inr b \<and> datetime_of_date b = Inr (midnight b)
            \<and> monday_bucket (midnight b) = Inr b"
    using mon datetime_of_date_eq[OF mon(2)] monday_bucket_monday[OF mon(2) weekday_monday]
    by blast
  have p2: "\<exists>b. month_bucket t = Inr b \<and> datetime_of_date b = Inr (midnight b)
            \<and> month_bucket (midnight b) = Inr b"
    using month_bucket_eq[OF v] datetime_of_date_eq[OF valid_month_start[OF v]]
      month_bucket_month_start[OF v] by blast
  have p3: "\<exists>b. monday_bucket_dt t = Inr b \<and> monday_bucket_dt b = Inr b"
    using monday_bucket_dt_eq[OF v] monday_bucket_dt_monday[OF mon(2) weekday_monday] by blast
  obtain b where b: "bucket_start t g = Inr b" using bucket_start_eq[OF v] by blast
  note vb = bucket_start_valid[OF v b]
  note idem = bucket_start_idem[OF v b]
  have k: "bucket_key t g = Inr (strftime_iso_z b)" "bucket_key b g = Inr (strftime_iso_z b)"
    by (simp_all add: bucket_key_def b idem)
  have "\<forall>t'. valid_datetime t' \<and> strftime_iso_z t' = strftime_iso_z b \<longrightarrow> bucket_key t' g = bucket_key t g"
    using strftime_iso_z_eq_iff[OF _ vb] k by auto
  with b k vb have p4: "\<exists>b. bucket_start t g = Inr b \<and> bucket_key t g = Inr (strftime_iso_z b)
            \<and> valid_datetime b \<and> bucket_key b g = bucket_key t g
            \<and> (\<forall>t'. valid_datetime t' \<and> strftime_iso_z t' = strftime_iso_z b
                   \<longrightarrow> bucket_key t' g = bucket_key t g)" by auto
  show ?thesis by (intro conjI p1 p2 p3 p4)
qed

text \<open>Wednesday 2024-01-03, 10:00:00 UTC, bucketed by the week in the second script.\<close>

theorem bucket_idempotent_witness:
  "valid_datetime \<lparr>dt_date = 738888, dt_hour = 10, dt_minute = 0, dt_second = 0\<rparr>
   \<and> (\<exists>b. monday_bucket \<lparr>dt_date = 738888, dt_hour = 10, dt_minute = 0, dt_second = 0\<rparr> = Inr b
          \<and> datetime_of_date b = Inr (midnight b) \<and> monday_bucket (midnight b) = Inr b)
   \<and> (\<exists>b. bucket_key \<lparr>dt_date = 738888, dt_hour = 10, dt_minute = 0, dt_second = 0\<rparr> ''weekly''
            = Inr (strftime_iso_z b)
          \<and> bucket_key b ''weekly''
            = bucket_key \<lparr>dt_date = 738888, dt_hour = 10, dt_minute = 0, dt_second = 0\<rparr> ''weekly'')"
proof -
  have h: "valid_datetime \<lparr>dt_date = 738888, dt_hour = 10, dt_minute = 0, dt_second = 0\<rparr>"
    by (simp add: valid_datetime_def valid_date_def MINORD_def MAXORD_def)
  from bucket_idempotent[OF h, of "''weekly''"] h show ?thesis by blast
qed

text \<open>The values, computed.\<close>

lemma ord2ymd_example: "ord2ymd 738888 = (2024, 1, 3)"
  by code_simp

lemma bucket_examples:
  "monday_bucket \<lparr>dt_date = 738888, dt_hour = 10, dt_minute = 0, dt_second = 0\<rparr> = Inr 738886"
  "month_bucket \<lparr>dt_date = 738888, dt_hour = 10, dt_minute = 0, dt_second = 0\<rparr> = Inr 738886"
  "bucket_key \<lparr>dt_date = 738888, dt_hour = 10, dt_minute = 0, dt_second = 0\<rparr> ''weekly'' = Inr ''2024-01-01T00:00:00Z''"
  "bucket_key \<lparr>dt_date = 738888, dt_hour = 10, dt_minute = 0, dt_second = 0\<rparr> ''daily'' = Inr ''2024-01-03T00:00:00Z''"
  by code_simp+

section \<open>Properties of the aggregator and the sink\<close>

subsection \<open>Tables\<close>












lemma sorted_wrt_map_mono:
  assumes "sorted_wrt (<) (map fst xs)" and "list_all (\<lambda>kv. V (fst kv)) xs"
    and "\<And>a b. V a \<Longrightarrow> V b \<Longrightarrow> a < b \<Longrightarrow> f a < f b"
  shows "sorted_wrt (<) (map (\<lambda>kv. f (fst kv)) xs)"
  using assms(1,2) by (induction xs) (auto simp: list_all_iff intro: assms(3))

lemma list_all_sort: "list_all P (sort xs) = list_all P xs"
  by (simp add: list_all_iff)

subsection \<open>What the loops keep true of their tables\<close>




lemma valid_datetime_date: "valid_datetime t \<Longrightarrow> valid_date (dt_date t)"
  by (simp add: valid_datetime_def)






subsection \<open>The files written\<close>

















subsection \<open>Claim C8\<close>


text \<open>The three pull requests of the example fall into the weeks of 2024-01-01 and 2024-01-08.\<close>

lemma pr_opened_example_counts:
  "count_items scan_fixed created_at pr_opened_example [] = Inr [(738886, 2), (738893, 1)]"
  by code_simp

lemma pr_opened_example_csv:
  "fst (write_csv ''prs_opened_weekly.csv'' [(738886, 2), (738893, 1)] Map.empty) ''prs_opened_weekly.csv''
     = Some [[CStr ''time'', CStr ''count''],
             [CStr ''2024-01-01T00:00:00Z'', CInt 2],
             [CStr ''2024-01-08T00:00:00Z'', CInt 1]]"
  by code_simp



section \<open>Properties of the aggregation loops: timestamps and identities\<close>

subsection \<open>The loops, record by record\<close>





lemma monday_bucket_total:
  assumes "valid_datetime dt"
  shows "\<exists>b. monday_bucket dt = Inr b"
  using monday_bucket_eq(1)[OF valid_datetime_date[OF assms]] by blast





lemma trends_commits_step:
  assumes "trends_week scan s e c = Some wk"
  shows "trends_commits scan s e (c # cs) t
     = trends_commits scan s e cs (dict_incr wk (fst t), dict_add wk (trends_ident c) (snd t))"
  using assms by (auto simp: trends_week_def split: option.splits sum.splits if_splits)






lemma contrib_buckets_skip_ident:
  assumes "\<not> truthy (contrib_ident c)"
  shows "contrib_buckets scan xb (c # cs) b = contrib_buckets scan xb cs b"
  using assms by (cases "contrib_ident c") (auto split: option.splits sum.splits)

lemma contrib_buckets_step:
  assumes "contrib_week scan c = Some key" "contrib_ident c = Some ident" "ident \<noteq> []"
    "\<not> (xb \<and> is_bot c)"
  shows "contrib_buckets scan xb (c # cs) b = contrib_buckets scan xb cs (dict_add key ident b)"
  using assms by (auto simp: contrib_week_def split: option.splits sum.splits)

subsection \<open>Claim C5\<close>




subsection \<open>Claim C6\<close>

lemma tag_differs:
  "''login:'' @ l \<noteq> ''email:'' @ m" "''login:'' @ l \<noteq> ''unknown''" "''email:'' @ m \<noteq> ''unknown''"
  by simp_all

lemma trends_ident_login: "truthy (author_login c) \<Longrightarrow> trends_ident c = ''login:'' @ the (author_login c)"
  by (simp add: trends_ident_def)

lemma trends_ident_no_login:
  "\<not> truthy (author_login c) \<Longrightarrow>
     trends_ident c = (if truthy (author_email c) then ''email:'' @ the (author_email c) else ''unknown'')"
  by (simp add: trends_ident_def)

lemma trends_contributors_two:
  assumes "trends_week scan s e c1 = Some wk" "trends_week scan s e c2 = Some wk"
  shows "trends_contributors scan s e [c1, c2]
     = Inr [(wk, if trends_ident c1 = trends_ident c2 then 1 else 2)]"
proof -
  have "trends_commits scan s e [c1, c2] ([], [])
      = Inr (dict_incr wk (dict_incr wk []), dict_add wk (trends_ident c2) (dict_add wk (trends_ident c1) []))"
    by (simp only: trends_commits_step[OF assms(1)] trends_commits_step[OF assms(2)]
        trends_commits.simps(1) fst_conv snd_conv)
  then show ?thesis by (simp add: trends_contributors_def set_sizes_def)
qed

lemma contributors_rows_two:
  assumes "contrib_week scan c1 = Some key" "contrib_week scan c2 = Some key"
    and "contrib_ident c1 = Some i1" "i1 \<noteq> []" "contrib_ident c2 = Some i2" "i2 \<noteq> []"
    and "\<not> (xb \<and> is_bot c1)" "\<not> (xb \<and> is_bot c2)"
  shows "contributors_weekly_rows scan xb [c1, c2] = Inr [(key, if i1 = i2 then 1 else 2)]"
proof -
  have "contrib_buckets scan xb [c1, c2] [] = Inr (dict_add key i2 (dict_add key i1 []))"
    by (simp only: contrib_buckets_step[OF assms(1,3,4,7)] contrib_buckets_step[OF assms(2,5,6,8)]
        contrib_buckets.simps(1))
  then show ?thesis by (auto simp add: contributors_weekly_rows_def set_sizes_def)
qed

text \<open>
  C6 (as amended).  In \<^verbatim>\<open>github_weekly_trends.py\<close> an identity made from a login and one
  made from an e-mail address (or the identity \<^verbatim>\<open>unknown\<close>) are different texts whatever
  the login and the address are, because of their tags; so a commit with a login and a
  commit without one have different identities, and two such commits counted in one week
  give the contributor count 2 for it.  In \<^verbatim>\<open>contributors_weekly.py\<close> the identity is the
  login or the address itself, without a tag: two commits of one week give the count 1 when
  the two texts are equal and 2 when they differ.
\<close>

theorem identity_provenance:
  "(\<forall>l m. ''login:'' @ l \<noteq> ''email:'' @ m \<and> ''login:'' @ l \<noteq> ''unknown'' \<and> ''email:'' @ m \<noteq> ''unknown'')
   \<and> (\<forall>c1 c2 :: commit. truthy (author_login c1) \<and> \<not> truthy (author_login c2)
        \<longrightarrow> trends_ident c1 \<noteq> trends_ident c2)
   \<and> (\<forall>c1 c2 wk. trends_week scan start_d end_d c1 = Some wk \<and> trends_week scan start_d end_d c2 = Some wk
          \<and> truthy (author_login c1) \<and> \<not> truthy (author_login c2)
        \<longrightarrow> trends_contributors scan start_d end_d [c1, c2] = Inr [(wk, 2)])
   \<and> (\<forall>c1 c2 key i1 i2. contrib_week scan c1 = Some key \<and> contrib_week scan c2 = Some key
          \<and> contrib_ident c1 = Some i1 \<and> i1 \<noteq> [] \<and> contrib_ident c2 = Some i2 \<and> i2 \<noteq> []
          \<and> \<not> (xb \<and> is_bot c1) \<and> \<not> (xb \<and> is_bot c2)
        \<longrightarrow> contributors_weekly_rows scan xb [c1, c2] = Inr [(key, if i1 = i2 then 1 else 2)])"
proof -
  have p1: "\<forall>l m. ''login:'' @ l \<noteq> ''email:'' @ m \<and> ''login:'' @ l \<noteq> ''unknown'' \<and> ''email:'' @ m \<noteq> ''unknown''"
    by simp
  have d: "trends_ident c1 \<noteq> trends_ident c2"
    if "truthy (author_login c1)" "\<not> truthy (author_login c2)" for c1 c2 :: commit
    unfolding trends_ident_login[OF that(1)] trends_ident_no_login[OF that(2)] by simp
  then have p2: "\<forall>c1 c2 :: commit. truthy (author_login c1) \<and> \<not> truthy (author_login c2)
        \<longrightarrow> trends_ident c1 \<noteq> trends_ident c2" by blast
  have p3: "\<forall>c1 c2 wk. trends_week scan start_d end_d c1 = Some wk \<and> trends_week scan start_d end_d c2 = Some wk
          \<and> truthy (author_login c1) \<and> \<not> truthy (author_login c2)
        \<longrightarrow> trends_contributors scan start_d end_d [c1, c2] = Inr [(wk, 2)]"
    using trends_contributors_two d by simp
  have p4: "\<forall>c1 c2 key i1 i2. contrib_week scan c1 = Some key \<and> contrib_week scan c2 = Some key
          \<and> contrib_ident c1 = Some i1 \<and> i1 \<noteq> [] \<and> contrib_ident c2 = Some i2 \<and> i2 \<noteq> []
          \<and> \<not> (xb \<and> is_bot c1) \<and> \<not> (xb \<and> is_bot c2)
        \<longrightarrow> contributors_weekly_rows scan xb [c1, c2] = Inr [(key, if i1 = i2 then 1 else 2)]"
    using contributors_rows_two by blast
  show ?thesis by (intro conjI p1 p2 p3 p4)
qed

text \<open>
  Two commits of the week of 2024-01-01, one by the login \<^verbatim>\<open>alice\<close> and one with only the
  address \<^verbatim>\<open>alice@example.com\<close>: the count is 2 in both scripts.
\<close>

theorem identity_provenance_witness:
  "trends_week scan_fixed 738886 738906 commit_login_alice = Some 738886
   \<and> trends_week scan_fixed 738886 738906 commit_email_alice = Some 738886
   \<and> truthy (author_login commit_login_alice) \<and> \<not> truthy (author_login commit_email_alice)
   \<and> trends_ident commit_login_alice \<noteq> trends_ident commit_email_alice
   \<and> trends_contributors scan_fixed 738886 738906 [commit_login_alice, commit_email_alice] = Inr [(738886, 2)]
   \<and> contrib_ident commit_login_alice = Some ''alice''
   \<and> contrib_ident commit_email_alice = Some ''alice@example.com''
   \<and> contributors_weekly_rows scan_fixed False [commit_login_alice, commit_email_alice]
       = Inr [(''2024-01-01T00:00:00Z'', 2)]"
proof -
  have h: "trends_week scan_fixed 738886 738906 commit_login_alice = Some 738886"
    "trends_week scan_fixed 738886 738906 commit_email_alice = Some 738886"
    "truthy (author_login commit_login_alice)" "\<not> truthy (author_login commit_email_alice)"
    "contrib_week scan_fixed commit_login_alice = Some ''2024-01-01T00:00:00Z''"
    "contrib_week scan_fixed commit_email_alice = Some ''2024-01-01T00:00:00Z''"
    "contrib_ident commit_login_alice = Some ''alice''"
    "contrib_ident commit_email_alice = Some ''alice@example.com''"
    by code_simp+
  have n: "''alice'' \<noteq> []" "''alice@example.com'' \<noteq> []" "''alice'' \<noteq> ''alice@example.com''" by simp_all
  note t = identity_provenance[of scan_fixed 738886 738906 False]
  from t h have a: "trends_ident commit_login_alice \<noteq> trends_ident commit_email_alice" by blast
  from t h have b: "trends_contributors scan_fixed 738886 738906 [commit_login_alice, commit_email_alice] = Inr [(738886, 2)]"
    by blast
  from t[THEN conjunct2, THEN conjunct2, THEN conjunct2, rule_format,
      of commit_login_alice "''2024-01-01T00:00:00Z''" commit_email_alice "''alice''" "''alice@example.com''"] h n
  have c: "contributors_weekly_rows scan_fixed False [commit_login_alice, commit_email_alice]
       = Inr [(''2024-01-01T00:00:00Z'', 2)]" by simp
  from h a b c show ?thesis by simp
qed

text \<open>
  The claim fails in \<^verbatim>\<open>contributors_weekly.py\<close>: a commit by the login \<^verbatim>\<open>alice\<close> and a
  commit without login whose e-mail text is \<^verbatim>\<open>alice\<close> have the same identity, and the count
  of their week is 1.
\<close>

theorem identity_untagged_counterexample:
  "truthy (author_login commit_login_alice) \<and> \<not> truthy (author_login commit_email_bare)
   \<and> contrib_ident commit_login_alice = Some ''alice''
   \<and> contrib_ident commit_email_bare = Some ''alice''
   \<and> contrib_ident commit_login_alice = contrib_ident commit_email_bare
   \<and> contributors_weekly_rows scan_fixed False [commit_login_alice, commit_email_bare]
       = Inr [(''2024-01-01T00:00:00Z'', 1)]"
  by code_simp

subsection \<open>Claim C7\<close>

lemma contrib_ident_cases:
  "truthy (author_login c) \<Longrightarrow> contrib_ident c = author_login c"
  "\<not> truthy (author_login c) \<Longrightarrow> contrib_ident c = author_email c"
  by (simp_all add: contrib_ident_def py_or_def)

lemma truthy_Some: "truthy x \<Longrightarrow> \<exists>s. x = Some s \<and> s \<noteq> []"
  by (cases x) simp_all

lemma trends_commits_anonymous:
  assumes "list_all (\<lambda>c. trends_week scan s e c = Some wk \<and> trends_ident c = ''unknown'') cs"
  shows "trends_commits scan s e cs ([(wk, n)], [(wk, {''unknown''})])
     = Inr ([(wk, n + int (length cs))], [(wk, {''unknown''})])"
  using assms
proof (induction cs arbitrary: n)
  case Nil
  then show ?case by simp
next
  case (Cons c cs)
  then have w: "trends_week scan s e c = Some wk" and u: "trends_ident c = ''unknown''"
    and r: "list_all (\<lambda>c. trends_week scan s e c = Some wk \<and> trends_ident c = ''unknown'') cs"
    by simp_all
  have "trends_commits scan s e (c # cs) ([(wk, n)], [(wk, {''unknown''})])
      = trends_commits scan s e cs ([(wk, n + 1)], [(wk, {''unknown''})])"
    by (simp add: trends_commits_step[OF w] u del: trends_commits.simps)
  also have "\<dots> = Inr ([(wk, n + 1 + int (length cs))], [(wk, {''unknown''})])"
    by (rule Cons.IH[OF r])
  finally show ?case by simp
qed

lemma trends_commits_anonymous_week:
  assumes "list_all (\<lambda>c. trends_week scan s e c = Some wk \<and> trends_ident c = ''unknown'') cs" "cs \<noteq> []"
  shows "trends_commits scan s e cs ([], []) = Inr ([(wk, int (length cs))], [(wk, {''unknown''})])"
proof -
  from assms(2) obtain c cs' where cs: "cs = c # cs'" by (cases cs) auto
  with assms(1) have w: "trends_week scan s e c = Some wk" and u: "trends_ident c = ''unknown''"
    and r: "list_all (\<lambda>c. trends_week scan s e c = Some wk \<and> trends_ident c = ''unknown'') cs'"
    by simp_all
  have "trends_commits scan s e (c # cs') ([], [])
      = trends_commits scan s e cs' ([(wk, 1)], [(wk, {''unknown''})])"
    by (simp add: trends_commits_step[OF w] u del: trends_commits.simps)
  also have "\<dots> = Inr ([(wk, 1 + int (length cs'))], [(wk, {''unknown''})])"
    by (rule trends_commits_anonymous[OF r])
  finally show ?thesis by (simp add: cs)
qed

text \<open>
  C7 (as amended).  Both scripts take the login when it is present and not empty, and
  otherwise the e-mail address when it is present and not empty.  With neither,
  \<^verbatim>\<open>contributors_weekly.py\<close> skips the commit, which so adds to no set of identities.
  \<^verbatim>\<open>github_weekly_trends.py\<close> counts every commit of a week in the commits of that week, and
  adds its identity to the set of the week: the login or the address with its tag, and the
  text \<^verbatim>\<open>unknown\<close> with neither.  So the commits without identity are together one member
  of the set: a week of such commits only has the commit count of their number and the
  contributor count 1.
\<close>

theorem identity_resolution:
  "(\<forall>(c::commit) key l. contrib_week scan c = Some key \<and> \<not> (xb \<and> is_bot c)
        \<and> author_login c = Some l \<and> l \<noteq> []
      \<longrightarrow> contrib_buckets scan xb (c # cs) b = contrib_buckets scan xb cs (dict_add key l b))
   \<and> (\<forall>(c::commit) key m. contrib_week scan c = Some key \<and> \<not> (xb \<and> is_bot c)
        \<and> \<not> truthy (author_login c) \<and> author_email c = Some m \<and> m \<noteq> []
      \<longrightarrow> contrib_buckets scan xb (c # cs) b = contrib_buckets scan xb cs (dict_add key m b))
   \<and> (\<forall>c::commit. \<not> truthy (author_login c) \<and> \<not> truthy (author_email c)
      \<longrightarrow> contrib_buckets scan xb (c # cs) b = contrib_buckets scan xb cs b)
   \<and> (\<forall>(c::commit) wk. trends_week scan start_d end_d c = Some wk
      \<longrightarrow> trends_commits scan start_d end_d (c # cs) t
          = trends_commits scan start_d end_d cs
              (dict_incr wk (fst t),
               dict_add wk (if truthy (author_login c) then ''login:'' @ the (author_login c)
                            else if truthy (author_email c) then ''email:'' @ the (author_email c)
                            else ''unknown'') (snd t)))
   \<and> (\<forall>(anon::commit list) wk. anon \<noteq> []
        \<and> list_all (\<lambda>c. trends_week scan start_d end_d c = Some wk
              \<and> \<not> truthy (author_login c) \<and> \<not> truthy (author_email c)) anon
      \<longrightarrow> trends_commits scan start_d end_d anon ([], [])
            = Inr ([(wk, int (length anon))], [(wk, {''unknown''})])
          \<and> trends_contributors scan start_d end_d anon = Inr [(wk, 1)])"
proof -
  have p1: "\<forall>(c::commit) key l. contrib_week scan c = Some key \<and> \<not> (xb \<and> is_bot c)
        \<and> author_login c = Some l \<and> l \<noteq> []
      \<longrightarrow> contrib_buckets scan xb (c # cs) b = contrib_buckets scan xb cs (dict_add key l b)"
  proof (intro allI impI, elim conjE)
    fix c :: commit and key l
    assume h: "contrib_week scan c = Some key" "\<not> (xb \<and> is_bot c)" "author_login c = Some l" "l \<noteq> []"
    then have "contrib_ident c = Some l" by (simp add: contrib_ident_cases(1))
    from contrib_buckets_step[OF h(1) this h(4) h(2)]
    show "contrib_buckets scan xb (c # cs) b = contrib_buckets scan xb cs (dict_add key l b)" .
  qed
  have p2: "\<forall>(c::commit) key m. contrib_week scan c = Some key \<and> \<not> (xb \<and> is_bot c)
        \<and> \<not> truthy (author_login c) \<and> author_email c = Some m \<and> m \<noteq> []
      \<longrightarrow> contrib_buckets scan xb (c # cs) b = contrib_buckets scan xb cs (dict_add key m b)"
  proof (intro allI impI, elim conjE)
    fix c :: commit and key m
    assume h: "contrib_week scan c = Some key" "\<not> (xb \<and> is_bot c)" "\<not> truthy (author_login c)"
      "author_email c = Some m" "m \<noteq> []"
    then have "contrib_ident c = Some m" by (simp add: contrib_ident_cases(2))
    from contrib_buckets_step[OF h(1) this h(5) h(2)]
    show "contrib_buckets scan xb (c # cs) b = contrib_buckets scan xb cs (dict_add key m b)" .
  qed
  have p3: "\<forall>c::commit. \<not> truthy (author_login c) \<and> \<not> truthy (author_email c)
      \<longrightarrow> contrib_buckets scan xb (c # cs) b = contrib_buckets scan xb cs b"
  proof (intro allI impI, elim conjE)
    fix c :: commit
    assume h: "\<not> truthy (author_login c)" "\<not> truthy (author_email c)"
    then have "\<not> truthy (contrib_ident c)" by (simp add: contrib_ident_cases(2))
    then show "contrib_buckets scan xb (c # cs) b = contrib_buckets scan xb cs b"
      by (rule contrib_buckets_skip_ident)
  qed
  have p4: "\<forall>(c::commit) wk. trends_week scan start_d end_d c = Some wk
      \<longrightarrow> trends_commits scan start_d end_d (c # cs) t
          = trends_commits scan start_d end_d cs
              (dict_incr wk (fst t),
               dict_add wk (if truthy (author_login c) then ''login:'' @ the (author_login c)
                            else if truthy (author_email c) then ''email:'' @ the (author_email c)
                            else ''unknown'') (snd t))"
  proof (intro allI impI)
    fix c :: commit and wk
    assume h: "trends_week scan start_d end_d c = Some wk"
    show "trends_commits scan start_d end_d (c # cs) t
          = trends_commits scan start_d end_d cs
              (dict_incr wk (fst t),
               dict_add wk (if truthy (author_login c) then ''login:'' @ the (author_login c)
                            else if truthy (author_email c) then ''email:'' @ the (author_email c)
                            else ''unknown'') (snd t))"
      using trends_commits_step[OF h, of cs t] by (simp only: trends_ident_def)
  qed
  have p5: "\<forall>(anon::commit list) wk. anon \<noteq> []
        \<and> list_all (\<lambda>c. trends_week scan start_d end_d c = Some wk
              \<and> \<not> truthy (author_login c) \<and> \<not> truthy (author_email c)) anon
      \<longrightarrow> trends_commits scan start_d end_d anon ([], [])
            = Inr ([(wk, int (length anon))], [(wk, {''unknown''})])
          \<and> trends_contributors scan start_d end_d anon = Inr [(wk, 1)]"
  proof (intro allI impI, elim conjE)
    fix anon :: "commit list" and wk
    assume ne: "anon \<noteq> []"
      and a: "list_all (\<lambda>c. trends_week scan start_d end_d c = Some wk
              \<and> \<not> truthy (author_login c) \<and> \<not> truthy (author_email c)) anon"
    from a have "list_all (\<lambda>c. trends_week scan start_d end_d c = Some wk \<and> trends_ident c = ''unknown'') anon"
      by (simp add: list_all_iff trends_ident_def)
    from trends_commits_anonymous_week[OF this ne]
    have r: "trends_commits scan start_d end_d anon ([], [])
            = Inr ([(wk, int (length anon))], [(wk, {''unknown''})])" .
    then have "trends_contributors scan start_d end_d anon = Inr [(wk, 1)]"
      by (simp add: trends_contributors_def set_sizes_def)
    with r show "trends_commits scan start_d end_d anon ([], [])
            = Inr ([(wk, int (length anon))], [(wk, {''unknown''})])
          \<and> trends_contributors scan start_d end_d anon = Inr [(wk, 1)]" by simp
  qed
  show ?thesis by (intro conjI p1 p2 p3 p4 p5)
qed

text \<open>
  The commits of the examples in the two loops, and a week of two commits without identity.
\<close>

theorem identity_resolution_witness:
  "contrib_week scan_fixed commit_login_alice = Some ''2024-01-01T00:00:00Z''
   \<and> author_login commit_login_alice = Some ''alice''
   \<and> contrib_buckets scan_fixed False [commit_login_alice] []
       = contrib_buckets scan_fixed False [] (dict_add ''2024-01-01T00:00:00Z'' ''alice'' [])
   \<and> contrib_week scan_fixed commit_email_alice = Some ''2024-01-01T00:00:00Z''
   \<and> author_email commit_email_alice = Some ''alice@example.com''
   \<and> contrib_buckets scan_fixed False [commit_email_alice] []
       = contrib_buckets scan_fixed False [] (dict_add ''2024-01-01T00:00:00Z'' ''alice@example.com'' [])
   \<and> contrib_buckets scan_fixed False [commit_anonymous] [] = contrib_buckets scan_fixed False [] []
   \<and> trends_week scan_fixed 738886 738906 commit_email_alice = Some 738886
   \<and> trends_commits scan_fixed 738886 738906 [commit_email_alice] ([], [])
       = trends_commits scan_fixed 738886 738906 []
           (dict_incr 738886 [], dict_add 738886 ''email:alice@example.com'' [])
   \<and> trends_commits scan_fixed 738886 738906 [commit_anonymous, commit_anonymous] ([], [])
       = Inr ([(738886, 2)], [(738886, {''unknown''})])
   \<and> trends_contributors scan_fixed 738886 738906 [commit_anonymous, commit_anonymous] = Inr [(738886, 1)]"
proof -
  have h: "contrib_week scan_fixed commit_login_alice = Some ''2024-01-01T00:00:00Z''"
    "author_login commit_login_alice = Some ''alice''"
    "contrib_week scan_fixed commit_email_alice = Some ''2024-01-01T00:00:00Z''"
    "author_email commit_email_alice = Some ''alice@example.com''"
    "\<not> truthy (author_login commit_email_alice)"
    "truthy (author_email commit_email_alice)"
    "\<not> truthy (author_login commit_anonymous)" "\<not> truthy (author_email commit_anonymous)"
    "trends_week scan_fixed 738886 738906 commit_email_alice = Some 738886"
    "trends_week scan_fixed 738886 738906 commit_anonymous = Some 738886"
    by code_simp+
  note t = identity_resolution[of scan_fixed False "[]" "[]" 738886 738906 "([], [])"]
  note t1 = t[THEN conjunct1, rule_format]
  note t2 = t[THEN conjunct2, THEN conjunct1, rule_format]
  note t3 = t[THEN conjunct2, THEN conjunct2, THEN conjunct1, rule_format]
  note t4 = t[THEN conjunct2, THEN conjunct2, THEN conjunct2, THEN conjunct1, rule_format]
  note t5 = t[THEN conjunct2, THEN conjunct2, THEN conjunct2, THEN conjunct2, rule_format]
  have a: "contrib_buckets scan_fixed False [commit_login_alice] []
       = contrib_buckets scan_fixed False [] (dict_add ''2024-01-01T00:00:00Z'' ''alice'' [])"
    by (rule t1) (simp add: h(1,2))
  have b: "contrib_buckets scan_fixed False [commit_email_alice] []
       = contrib_buckets scan_fixed False [] (dict_add ''2024-01-01T00:00:00Z'' ''alice@example.com'' [])"
    by (rule t2) (simp add: h(3,4,5))
  have c: "contrib_buckets scan_fixed False [commit_anonymous] [] = contrib_buckets scan_fixed False [] []"
    by (rule t3) (simp add: h(7,8))
  have "trends_commits scan_fixed 738886 738906 [commit_email_alice] ([], [])
       = trends_commits scan_fixed 738886 738906 []
           (dict_incr 738886 (fst ([], [])),
            dict_add 738886 (if truthy (author_login commit_email_alice)
               then ''login:'' @ the (author_login commit_email_alice)
               else if truthy (author_email commit_email_alice)
                 then ''email:'' @ the (author_email commit_email_alice)
                 else ''unknown'') (snd ([], [])))"
    using t4[OF h(9)] by simp
  then have d: "trends_commits scan_fixed 738886 738906 [commit_email_alice] ([], [])
       = trends_commits scan_fixed 738886 738906 []
           (dict_incr 738886 [], dict_add 738886 ''email:alice@example.com'' [])"
    by (simp add: h(4,5,6))
  have e: "trends_commits scan_fixed 738886 738906 [commit_anonymous, commit_anonymous] ([], [])
       = Inr ([(738886, int (length [commit_anonymous, commit_anonymous]))], [(738886, {''unknown''})])
     \<and> trends_contributors scan_fixed 738886 738906 [commit_anonymous, commit_anonymous] = Inr [(738886, 1)]"
    by (rule t5) (simp add: h(7,8,10))
  have e1: "trends_commits scan_fixed 738886 738906 [commit_anonymous, commit_anonymous] ([], [])
       = Inr ([(738886, 2)], [(738886, {''unknown''})])"
    using e[THEN conjunct1] by simp
  show ?thesis
    by (intro conjI h(1) h(2) a h(3) h(4) b c h(9) d e1 e[THEN conjunct2])
qed

text \<open>
  The claim fails in \<^verbatim>\<open>github_weekly_trends.py\<close>: a commit with neither login nor address
  raises the contributor count of its week, from 1 to 2 next to a commit by \<^verbatim>\<open>alice\<close>, and
  from no row to the count 1 when it is alone.
\<close>

theorem identity_unknown_counterexample:
  "\<not> truthy (author_login commit_anonymous) \<and> \<not> truthy (author_email commit_anonymous)
   \<and> trends_contributors scan_fixed 738886 738906 [commit_login_alice] = Inr [(738886, 1)]
   \<and> trends_contributors scan_fixed 738886 738906 [commit_login_alice, commit_anonymous] = Inr [(738886, 2)]
   \<and> trends_contributors scan_fixed 738886 738906 [] = Inr []
   \<and> trends_contributors scan_fixed 738886 738906 [commit_anonymous] = Inr [(738886, 1)]"
  by code_simp

section \<open>Properties of the fetchers\<close>

subsection \<open>The log\<close>

lemma requests_of_append [simp]: "requests_of (a @ b) = requests_of a @ requests_of b"
  by (induction a rule: requests_of.induct) simp_all

lemma requests_of_pairs [simp]:
  "requests_of (concat (map (\<lambda>j. [Get (f j), Sleep (s j)]) js)) = map f js"
  by (induction js) simp_all

lemma requests_of_retries [simp]:
  "requests_of (concat (replicate m [Get req, Sleep s])) = replicate m req"
  by (induction m) simp_all

subsection \<open>\<^verbatim>\<open>search_label\<close>: the rate limit\<close>

lemma search_label_retry:
  assumes "status_code (srv (length (requests_of evs)) (SearchIssues q 100 page)) = 403"
  shows "search_label_loop (Suc n) srv q page items evs
     = search_label_loop n srv q page items (evs @ [Get (SearchIssues q 100 page), Sleep 5])"
  using assms by (simp add: http_get_def py_sleep_def)

lemma search_label_retries:
  "(\<forall>i<m. status_code (srv (length (requests_of evs) + i) (SearchIssues q 100 page)) = 403) \<Longrightarrow>
   search_label_loop (m + n) srv q page items evs
     = search_label_loop n srv q page items
         (evs @ concat (replicate m [Get (SearchIssues q 100 page), Sleep 5]))"
proof (induction m arbitrary: evs)
  case 0
  then show ?case by simp
next
  case (Suc m)
  let ?req = "SearchIssues q 100 page"
  let ?evs = "evs @ [Get ?req, Sleep 5]"
  from Suc.prems have first: "status_code (srv (length (requests_of evs)) ?req) = 403"
    by (metis add.right_neutral zero_less_Suc)
  have "\<forall>i<m. status_code (srv (length (requests_of ?evs) + i) ?req) = 403"
  proof (intro allI impI)
    fix i assume "i < m"
    then have "Suc i < Suc m" by simp
    with Suc.prems have "status_code (srv (length (requests_of evs) + Suc i) ?req) = 403" by blast
    then show "status_code (srv (length (requests_of ?evs) + i) ?req) = 403" by simp
  qed
  from Suc.IH[OF this]
  have "search_label_loop (m + n) srv q page items ?evs
      = search_label_loop n srv q page items (?evs @ concat (replicate m [Get ?req, Sleep 5]))" .
  moreover have "search_label_loop (Suc m + n) srv q page items evs
      = search_label_loop (m + n) srv q page items ?evs"
    using search_label_retry[of srv evs q page "m + n" items, OF first] by simp
  ultimately show ?case by simp
qed

lemma search_label_limited_forever:
  "(\<forall>i. status_code (srv (length (requests_of evs) + i) (SearchIssues q 100 page)) = 403) \<Longrightarrow>
   search_label_loop n srv q page items evs = None"
proof (induction n arbitrary: evs)
  case 0
  show ?case by simp
next
  case (Suc n)
  let ?req = "SearchIssues q 100 page"
  let ?evs = "evs @ [Get ?req, Sleep 5]"
  from Suc.prems[THEN spec, of 0] have first: "status_code (srv (length (requests_of evs)) ?req) = 403"
    by simp
  have "\<forall>i. status_code (srv (length (requests_of ?evs) + i) ?req) = 403"
  proof
    fix i
    from Suc.prems[THEN spec, of "Suc i"]
    show "status_code (srv (length (requests_of ?evs) + i) ?req) = 403" by simp
  qed
  from Suc.IH[OF this] search_label_retry[of srv evs q page n items, OF first] show ?case by simp
qed

lemma search_label_short:
  assumes "status_code r = 200" "json_body r = Some data" "length (json_items data) < 100"
    and "r = srv (length (requests_of evs)) (SearchIssues q 100 page)"
  shows "search_label_loop (Suc n) srv q page items evs
     = Some (Inr (items @ json_items data), evs @ [Get (SearchIssues q 100 page)])"
  using assms(1,2,3) unfolding assms(4)
  by (simp add: http_get_def raise_for_status_def)


lemma search_label_fatal:
  assumes "400 \<le> status_code r" "status_code r < 600" "status_code r \<noteq> 403"
    and "r = srv (length (requests_of evs)) (SearchIssues q 100 page)"
  shows "search_label_loop (Suc n) srv q page items evs
     = Some (Inl (HTTPError (status_code r) ''search/issues'' q page (resp_text r)),
             evs @ [Get (SearchIssues q 100 page)])"
  using assms(1,2,3) unfolding assms(4)
  by (simp add: http_get_def raise_for_status_def)

subsection \<open>The other fetchers on a response that is not a success\<close>

lemma fetch_search_pages_fatal:
  assumes "status_code r \<noteq> 200"
    and "r = srv (length (requests_of evs)) (SearchIssues q per_page page)"
  shows "fetch_search_pages srv q per_page pause (page # pages) all_items evs
     = (Inl (SystemExit_search (status_code r) q page (err_payload r)),
        evs @ [Get (SearchIssues q per_page page)])"
  using assms(1) unfolding assms(2) by (simp add: http_get_def)

lemma search_items_pages_fatal:
  assumes "400 \<le> status_code r" "status_code r < 600"
    and "r = srv (length (requests_of evs)) (SearchIssues q 100 page)"
  shows "search_items_pages srv q pause (page # pages) items evs
     = (Inl (HTTPError (status_code r) ''search/issues'' q page (resp_text r)),
        evs @ [Get (SearchIssues q 100 page)])"
  using assms(1,2) unfolding assms(3)
  by (simp add: http_get_def raise_for_status_def)

lemma upto_first: "1 \<le> (mx::int) \<Longrightarrow> [1..mx] = 1 # [2..mx]"
  by (simp add: upto_rec1)

subsection \<open>\<^verbatim>\<open>fetch_search\<close>: the pages of one search\<close>






subsection \<open>\<^verbatim>\<open>search_label\<close>: the pages of one search\<close>





subsection \<open>Claim C2\<close>




subsection \<open>Claim C3\<close>

text \<open>
  C3 (as amended).  In \<^verbatim>\<open>search_label\<close> of \<^verbatim>\<open>major_decision_weekly.py\<close> a response with the
  status 403 is never an error: after any number of such responses the loop has paused 5
  seconds after each and requested the same page again, with the items gathered so far
  unchanged, so that it goes on from there as it would have without them (it returns the page
  when the next answer is a short page); and when the server answers 403 without end, the
  loop retries without end.  The other two fetchers do not retry: on a response with the
  status 403 to the request for a page, \<^verbatim>\<open>fetch_search\<close> of \<^verbatim>\<open>github_prs_to_csv.py\<close> raises
  \<^verbatim>\<open>SystemExit\<close> and \<^verbatim>\<open>search_items\<close> of \<^verbatim>\<open>github_weekly_trends.py\<close> raises \<^verbatim>\<open>HTTPError\<close>, at
  once and without a further request.
\<close>

theorem rate_limit_handling:
  "(\<forall>m n. (\<forall>i<m. status_code (srv (length (requests_of evs) + i) (SearchIssues q 100 page)) = 403)
      \<longrightarrow> search_label_loop (m + n) srv q page items evs
          = search_label_loop n srv q page items
              (evs @ concat (replicate m [Get (SearchIssues q 100 page), Sleep 5])))
   \<and> (\<forall>m n data. (\<forall>i<m. status_code (srv (length (requests_of evs) + i) (SearchIssues q 100 page)) = 403)
        \<and> status_code (srv (length (requests_of evs) + m) (SearchIssues q 100 page)) = 200
        \<and> json_body (srv (length (requests_of evs) + m) (SearchIssues q 100 page)) = Some data
        \<and> length (json_items data) < 100
      \<longrightarrow> search_label_loop (m + Suc n) srv q page items evs
          = Some (Inr (items @ json_items data),
                  evs @ concat (replicate m [Get (SearchIssues q 100 page), Sleep 5])
                      @ [Get (SearchIssues q 100 page)]))
   \<and> ((\<forall>i. status_code (srv (length (requests_of evs) + i) (SearchIssues q 100 page)) = 403)
      \<longrightarrow> (\<forall>n. search_label_loop n srv q page items evs = None))
   \<and> (status_code (srv (length (requests_of evs)) (SearchIssues q per_page page)) = 403
      \<longrightarrow> fetch_search_pages srv q per_page pause (page # pages) items evs
          = (Inl (SystemExit_search 403 q page
                   (err_payload (srv (length (requests_of evs)) (SearchIssues q per_page page)))),
             evs @ [Get (SearchIssues q per_page page)]))
   \<and> (status_code (srv (length (requests_of evs)) (SearchIssues q 100 page)) = 403
      \<longrightarrow> search_items_pages srv q pause (page # pages) items evs
          = (Inl (HTTPError 403 ''search/issues'' q page
                   (resp_text (srv (length (requests_of evs)) (SearchIssues q 100 page)))),
             evs @ [Get (SearchIssues q 100 page)]))"
proof -
  let ?req = "SearchIssues q 100 page"
  let ?g = "length (requests_of evs)"
  have p1: "\<forall>m n. (\<forall>i<m. status_code (srv (?g + i) ?req) = 403)
      \<longrightarrow> search_label_loop (m + n) srv q page items evs
          = search_label_loop n srv q page items (evs @ concat (replicate m [Get ?req, Sleep 5]))"
    using search_label_retries by blast
  have p2: "\<forall>m n data. (\<forall>i<m. status_code (srv (?g + i) ?req) = 403)
        \<and> status_code (srv (?g + m) ?req) = 200
        \<and> json_body (srv (?g + m) ?req) = Some data
        \<and> length (json_items data) < 100
      \<longrightarrow> search_label_loop (m + Suc n) srv q page items evs
          = Some (Inr (items @ json_items data),
                  evs @ concat (replicate m [Get ?req, Sleep 5]) @ [Get ?req])"
  proof (intro allI impI, elim conjE)
    fix m n data
    let ?evs = "evs @ concat (replicate m [Get ?req, Sleep 5])"
    assume lim: "\<forall>i<m. status_code (srv (?g + i) ?req) = 403"
      and ok: "status_code (srv (?g + m) ?req) = 200" "json_body (srv (?g + m) ?req) = Some data"
      and short: "length (json_items data) < 100"
    have g: "length (requests_of ?evs) = ?g + m" by simp
    from ok have ok': "status_code (srv (length (requests_of ?evs)) ?req) = 200"
      "json_body (srv (length (requests_of ?evs)) ?req) = Some data" by (simp_all only: g)
    have "search_label_loop (Suc n) srv q page items ?evs
        = Some (Inr (items @ json_items data), ?evs @ [Get ?req])"
      by (rule search_label_short[where srv=srv and evs="?evs" and q=q and page=page, OF ok' short refl])
    with search_label_retries[where srv=srv and evs=evs and q=q and page=page, OF lim, of "Suc n" items]
    show "search_label_loop (m + Suc n) srv q page items evs
          = Some (Inr (items @ json_items data),
                  evs @ concat (replicate m [Get ?req, Sleep 5]) @ [Get ?req])" by simp
  qed
  have p3: "(\<forall>i. status_code (srv (?g + i) ?req) = 403)
      \<longrightarrow> (\<forall>n. search_label_loop n srv q page items evs = None)"
    using search_label_limited_forever by blast
  have p4: "status_code (srv ?g (SearchIssues q per_page page)) = 403
      \<longrightarrow> fetch_search_pages srv q per_page pause (page # pages) items evs
          = (Inl (SystemExit_search 403 q page (err_payload (srv ?g (SearchIssues q per_page page)))),
             evs @ [Get (SearchIssues q per_page page)])"
  proof
    assume a: "status_code (srv ?g (SearchIssues q per_page page)) = 403"
    then have "status_code (srv ?g (SearchIssues q per_page page)) \<noteq> 200" by simp
    from fetch_search_pages_fatal[where srv=srv and evs=evs and q=q and page=page and per_page=per_page,
        OF this refl, of pause pages items] a
    show "fetch_search_pages srv q per_page pause (page # pages) items evs
          = (Inl (SystemExit_search 403 q page (err_payload (srv ?g (SearchIssues q per_page page)))),
             evs @ [Get (SearchIssues q per_page page)])" by simp
  qed
  have p5: "status_code (srv ?g ?req) = 403
      \<longrightarrow> search_items_pages srv q pause (page # pages) items evs
          = (Inl (HTTPError 403 ''search/issues'' q page (resp_text (srv ?g ?req))), evs @ [Get ?req])"
  proof
    assume a: "status_code (srv ?g ?req) = 403"
    then have "400 \<le> status_code (srv ?g ?req)" "status_code (srv ?g ?req) < 600" by simp_all
    from search_items_pages_fatal[where srv=srv and evs=evs and q=q and page=page,
        OF this refl, of pause pages items] a
    show "search_items_pages srv q pause (page # pages) items evs
          = (Inl (HTTPError 403 ''search/issues'' q page (resp_text (srv ?g ?req))), evs @ [Get ?req])"
      by simp
  qed
  show ?thesis by (intro conjI p1 p2 p3 p4 p5)
qed

text \<open>
  Two responses 403 and then a page of one item; and a server that answers 403 always.
\<close>

theorem rate_limit_handling_witness:
  "status_code (srv_limited_twice 0 (SearchIssues ''q'' 100 1)) = 403
   \<and> status_code (srv_limited_twice 1 (SearchIssues ''q'' 100 1)) = 403
   \<and> status_code (srv_limited_twice 2 (SearchIssues ''q'' 100 1)) = 200
   \<and> search_label_loop 3 srv_limited_twice ''q'' 1 [] []
       = Some (Inr [example_item],
               [Get (SearchIssues ''q'' 100 1), Sleep 5, Get (SearchIssues ''q'' 100 1), Sleep 5,
                Get (SearchIssues ''q'' 100 1)])
   \<and> search_label_loop 1000 srv_limited ''q'' 1 [] [] = None
   \<and> status_code (srv_limited 0 (SearchIssues ''q'' 100 1)) = 403
   \<and> fetch_search_pages srv_limited ''q'' 100 (1 / 5) [1, 2] [] []
       = (Inl (SystemExit_search 403 ''q'' 1 ''API rate limit exceeded''), [Get (SearchIssues ''q'' 100 1)])"
proof -
  note t = rate_limit_handling[of srv_limited_twice "[]" "''q''" 1 "[]" 100 "1 / 5" "[2]"]
  note u = rate_limit_handling[of srv_limited "[]" "''q''" 1 "[]" 100 "1 / 5" "[2]"]
  have h: "status_code (srv_limited_twice 0 (SearchIssues ''q'' 100 1)) = 403"
    "status_code (srv_limited_twice 1 (SearchIssues ''q'' 100 1)) = 403"
    "status_code (srv_limited_twice 2 (SearchIssues ''q'' 100 1)) = 200"
    "json_body (srv_limited_twice 2 (SearchIssues ''q'' 100 1)) = Some (Json ''{'items': [...]}'' [example_item] None)"
    "status_code (srv_limited 0 (SearchIssues ''q'' 100 1)) = 403"
    "err_payload (srv_limited 0 (SearchIssues ''q'' 100 1)) = ''API rate limit exceeded''"
    by (simp_all add: srv_limited_twice_def srv_limited_def response_limited_def response_ok_def err_payload_def)
  note t2 = t[THEN conjunct2, THEN conjunct1, rule_format]
  have three: "(3::nat) = 2 + Suc 0" by simp
  have "search_label_loop (2 + Suc 0) srv_limited_twice ''q'' 1 [] []
       = Some (Inr ([] @ json_items (Json ''{'items': [...]}'' [example_item] None)),
               [] @ concat (replicate 2 [Get (SearchIssues ''q'' 100 1), Sleep 5])
                  @ [Get (SearchIssues ''q'' 100 1)])"
    by (rule t2[where m=2 and n=0 and data="Json ''{'items': [...]}'' [example_item] None"])
      (simp add: srv_limited_twice_def response_limited_def response_ok_def)
  then have a: "search_label_loop 3 srv_limited_twice ''q'' 1 [] []
       = Some (Inr [example_item],
               [Get (SearchIssues ''q'' 100 1), Sleep 5, Get (SearchIssues ''q'' 100 1), Sleep 5,
                Get (SearchIssues ''q'' 100 1)])"
    unfolding three by (simp del: search_label_loop.simps add: numeral_2_eq_2)
  have "\<forall>i. status_code (srv_limited (length (requests_of []) + i) (SearchIssues ''q'' 100 1)) = 403"
    by (simp add: srv_limited_def response_limited_def)
  with u have b: "search_label_loop 1000 srv_limited ''q'' 1 [] [] = None" by blast
  from u h(5,6) have c: "fetch_search_pages srv_limited ''q'' 100 (1 / 5) [1, 2] [] []
       = (Inl (SystemExit_search 403 ''q'' 1 ''API rate limit exceeded''), [Get (SearchIssues ''q'' 100 1)])"
    by simp
  from h a b c show ?thesis by simp
qed

text \<open>
  The claim fails in the other two scripts: the first response 403 ends the fetch with an
  error.
\<close>

theorem rate_limit_fatal_counterexample:
  "status_code (srv_limited 0 (SearchIssues ''q'' 100 1)) = 403
   \<and> fetch_search srv_limited ''q'' 100 10 (1 / 5) []
       = (Inl (SystemExit_search 403 ''q'' 1 ''API rate limit exceeded''), [Get (SearchIssues ''q'' 100 1)])
   \<and> search_items srv_limited ''q'' 10 (1 / 2) []
       = (Inl (HTTPError 403 ''search/issues'' ''q'' 1 ''API rate limit exceeded''),
          [Get (SearchIssues ''q'' 100 1)])"
  by code_simp

end
